theory Spec2Isabelle
  imports Main "HOL-Library.Word"
begin

unbundle bit_operations_syntax

section \<open>Data model of heap\_surgery.c\<close>

text \<open>
  The C types the functions of \<^verbatim>\<open>heap_surgery.c\<close> work on. Machine integers keep
  their width: block numbers and transaction ids are 32-bit, offset numbers and the
  info masks are 16-bit, the fields of a line pointer are the bit fields of
  \<^verbatim>\<open>ItemIdData\<close> (15, 2 and 15 bits).
\<close>

type_synonym BlockNumber = "32 word"
type_synonym OffsetNumber = "16 word"
type_synonym TransactionId = "32 word"

datatype HeapTupleForceOption = HEAP_FORCE_KILL | HEAP_FORCE_FREEZE

record ItemPointerData =
  ip_blkid :: BlockNumber
  ip_posid :: OffsetNumber

record ItemIdData =
  lp_off :: "15 word"
  lp_flags :: "2 word"
  lp_len :: "15 word"

text \<open>
  The tuple header, with the fields the surgery writes. \<open>t_xvac\<close> is the member
  \<^verbatim>\<open>t_field3.t_xvac\<close> of the header's union.
\<close>

record HeapTupleHeaderData =
  t_xmin :: TransactionId
  t_xmax :: TransactionId
  t_xvac :: TransactionId
  t_ctid :: ItemPointerData
  t_infomask2 :: "16 word"
  t_infomask :: "16 word"

text \<open>
  A page: the flag word of its header, the line pointer array \<^verbatim>\<open>pd_linp\<close> (as long
  as \<^verbatim>\<open>pd_lower\<close> says) and the tuple headers stored in it, addressed by their byte
  offset \<^verbatim>\<open>lp_off\<close> in the page. Two line pointers with the same \<open>lp_off\<close> share
  one header, as they do in C.

  \<^verbatim>\<open>PageGetItemId\<close> checks no range, so a redirect can lead the code to an address
  \<^verbatim>\<open>&pd_linp[offno - 1]\<close> that is outside the array. \<open>pd_outside\<close> is what the memory
  holds there, read as a line pointer, for every offset number outside the array (on a
  page whose free space is zero, an unused slot just behind the array). Which bytes
  these are (free space, tuple data, memory beside the page) is not modelled: a write
  to such an address changes \<open>pd_outside\<close> and nothing else.
\<close>

record Page =
  pd_flags :: "16 word"
  pd_linp :: "ItemIdData list"
  pd_items :: "15 word \<Rightarrow> HeapTupleHeaderData"
  pd_outside :: "OffsetNumber \<Rightarrow> ItemIdData"

text \<open>
  An \<^verbatim>\<open>ItemId\<close> is a pointer to a line pointer. \<open>Slot i\<close> is the address of the entry
  \<^verbatim>\<open>pd_linp[i]\<close> of the array; \<open>Outside offno\<close> is the address \<^verbatim>\<open>&pd_linp[offno - 1]\<close> for
  an offset number that is 0 or greater than the length of the array.
\<close>

datatype ItemId = Slot nat | Outside OffsetNumber

datatype notice =
    BlockOutOfRange BlockNumber
  | OffsetOutOfRange BlockNumber OffsetNumber
  | AlreadyUnused BlockNumber OffsetNumber
  | AlreadyDead BlockNumber OffsetNumber

text \<open>
  What a call does besides changing pages is kept as a trace, in the order of the
  calls in the C code: the notices reported and the calls into the buffer manager,
  the visibility map and the write-ahead log.
\<close>

datatype event =
    Notice notice
  | ReadBuffer BlockNumber
  | VisibilitymapPin BlockNumber
  | MarkBufferDirty BlockNumber
  | LogNewpageBuffer BlockNumber
  | LogNewpageVm BlockNumber

text \<open>
  The relation the call works on, opened by \<^verbatim>\<open>relation_open\<close>: its kind, the answer
  of \<^verbatim>\<open>pg_class_ownercheck\<close> for the calling user, \<^verbatim>\<open>RelationNeedsWAL\<close>, its blocks,
  the visibility map bits of each block, and the trace.
\<close>

record Relation =
  relkind :: char
  rd_owned :: bool
  rd_needs_wal :: bool
  rd_pages :: "Page list"
  rd_vm :: "BlockNumber \<Rightarrow> 8 word"
  rd_log :: "event list"

datatype error =
    RecoveryInProgress
  | NullValueNotAllowed
  | EmptyTidArray
  | WrongObjectType
  | NotOwner

text \<open>
  How a call ends without returning: \<open>Raised e rel\<close> is \<^verbatim>\<open>ereport(ERROR, ...)\<close> with
  the relation as it is when the error is raised. A loop that runs forever has no
  result at all (\<open>None\<close>).
\<close>

datatype stop = Raised error Relation

text \<open>The state of the work on one page, between reading the buffer and releasing it.\<close>

record PageSession =
  s_page :: Page
  s_vm :: "BlockNumber \<Rightarrow> 8 word"
  s_log :: "event list"
  did_modify_page :: bool
  did_modify_vm :: bool

section \<open>Constants and macros of the PostgreSQL headers\<close>

text \<open>
  Modelled from the spec: the constants \<open>InvalidTransactionId\<close>, \<open>FrozenTransactionId\<close>,
  \<open>InvalidBlockNumber\<close>, \<open>LP_UNUSED\<close>, \<open>LP_NORMAL\<close>, \<open>LP_REDIRECT\<close>, \<open>LP_DEAD\<close>,
  \<open>PD_ALL_VISIBLE\<close>, \<open>VISIBILITYMAP_ALL_VISIBLE\<close>, \<open>HEAP_XMIN_FROZEN\<close>,
  \<open>HEAP_XMAX_INVALID\<close>, \<open>HEAP_MOVED_OFF\<close>, \<open>HEAP_MOVED_IN\<close>, \<open>HEAP_MOVED\<close>,
  \<open>HEAP_XACT_MASK\<close>, \<open>HEAP_HOT_UPDATED\<close>, \<open>HEAP_KEYS_UPDATED\<close> and the relation kinds are
  declared in PostgreSQL's headers, which are not part of the source files; they have
  the values of those headers (the "frozen" and "none" sentinels, the four slot states,
  the all-visible flag, the xmin/xmax-interpretation bitmask and its bits, the legacy
  "moved" markers, the hot-updated and keys-updated flags).
\<close>

definition InvalidTransactionId :: TransactionId where
  "InvalidTransactionId = 0"

definition FrozenTransactionId :: TransactionId where
  "FrozenTransactionId = 2"

definition InvalidBlockNumber :: BlockNumber where
  "InvalidBlockNumber = 0xFFFFFFFF"

definition LP_UNUSED :: "2 word" where
  "LP_UNUSED = 0"

definition LP_NORMAL :: "2 word" where
  "LP_NORMAL = 1"

definition LP_REDIRECT :: "2 word" where
  "LP_REDIRECT = 2"

definition LP_DEAD :: "2 word" where
  "LP_DEAD = 3"

definition PD_ALL_VISIBLE :: "16 word" where
  "PD_ALL_VISIBLE = 0x0004"

definition VISIBILITYMAP_ALL_VISIBLE :: "8 word" where
  "VISIBILITYMAP_ALL_VISIBLE = 0x01"

definition HEAP_XMIN_FROZEN :: "16 word" where
  "HEAP_XMIN_FROZEN = 0x0300"

definition HEAP_XMAX_INVALID :: "16 word" where
  "HEAP_XMAX_INVALID = 0x0800"

definition HEAP_MOVED_OFF :: "16 word" where
  "HEAP_MOVED_OFF = 0x4000"

definition HEAP_MOVED_IN :: "16 word" where
  "HEAP_MOVED_IN = 0x8000"

definition HEAP_MOVED :: "16 word" where
  "HEAP_MOVED = HEAP_MOVED_OFF OR HEAP_MOVED_IN"

definition HEAP_XACT_MASK :: "16 word" where
  "HEAP_XACT_MASK = 0xFFF0"

definition HEAP_HOT_UPDATED :: "16 word" where
  "HEAP_HOT_UPDATED = 0x4000"

definition HEAP_KEYS_UPDATED :: "16 word" where
  "HEAP_KEYS_UPDATED = 0x2000"

definition RELKIND_RELATION :: char where
  "RELKIND_RELATION = CHR ''r''"

definition RELKIND_MATVIEW :: char where
  "RELKIND_MATVIEW = CHR ''m''"

definition RELKIND_TOASTVALUE :: char where
  "RELKIND_TOASTVALUE = CHR ''t''"

text \<open>
  Modelled from the spec: the line pointer macros \<open>ItemIdIsUsed\<close>, \<open>ItemIdIsNormal\<close>,
  \<open>ItemIdIsRedirected\<close>, \<open>ItemIdIsDead\<close>, \<open>ItemIdGetRedirect\<close> and \<open>ItemIdSetDead\<close> of
  PostgreSQL's \<^verbatim>\<open>itemid.h\<close> are not part of the source files. A slot is unused, normal,
  a redirect to another slot, or dead; marking a slot dead clears its reference to
  the stored row.
\<close>

definition ItemIdIsUsed :: "ItemIdData \<Rightarrow> bool" where
  "ItemIdIsUsed itemId \<longleftrightarrow> lp_flags itemId \<noteq> LP_UNUSED"

definition ItemIdIsNormal :: "ItemIdData \<Rightarrow> bool" where
  "ItemIdIsNormal itemId \<longleftrightarrow> lp_flags itemId = LP_NORMAL"

definition ItemIdIsRedirected :: "ItemIdData \<Rightarrow> bool" where
  "ItemIdIsRedirected itemId \<longleftrightarrow> lp_flags itemId = LP_REDIRECT"

definition ItemIdIsDead :: "ItemIdData \<Rightarrow> bool" where
  "ItemIdIsDead itemId \<longleftrightarrow> lp_flags itemId = LP_DEAD"

definition ItemIdGetRedirect :: "ItemIdData \<Rightarrow> OffsetNumber" where
  "ItemIdGetRedirect itemId = ucast (lp_off itemId)"

definition ItemIdSetDead :: "ItemIdData \<Rightarrow> ItemIdData" where
  "ItemIdSetDead itemId = itemId\<lparr>lp_flags := LP_DEAD, lp_off := 0, lp_len := 0\<rparr>"

text \<open>
  Modelled from the spec: the page macros \<open>PageGetMaxOffsetNumber\<close>, \<open>PageGetItemId\<close>,
  \<open>PageGetItem\<close>, \<open>PageIsAllVisible\<close> and \<open>PageClearAllVisible\<close> of PostgreSQL's
  \<^verbatim>\<open>bufpage.h\<close> are not part of the source files. \<open>PageGetItemId page offno\<close> is the
  address \<^verbatim>\<open>&pd_linp[offno - 1]\<close>, inside the array or outside of it; the macro reads
  nothing. \<open>item_at\<close> reads the line pointer at an address and \<open>item_set\<close> writes it, so
  that a write through an \<^verbatim>\<open>ItemId\<close> changes the page.
\<close>

definition PageGetMaxOffsetNumber :: "Page \<Rightarrow> OffsetNumber" where
  "PageGetMaxOffsetNumber page = of_nat (length (pd_linp page))"

definition PageGetItemId :: "Page \<Rightarrow> OffsetNumber \<Rightarrow> ItemId" where
  "PageGetItemId page offno =
     (if offno = 0 \<or> length (pd_linp page) < unat offno then Outside offno
      else Slot (unat offno - 1))"

fun item_at :: "Page \<Rightarrow> ItemId \<Rightarrow> ItemIdData" where
  "item_at page (Slot i) = pd_linp page ! i"
| "item_at page (Outside offno) = pd_outside page offno"

fun item_set :: "Page \<Rightarrow> ItemId \<Rightarrow> ItemIdData \<Rightarrow> Page" where
  "item_set page (Slot i) itemId = page\<lparr>pd_linp := (pd_linp page)[i := itemId]\<rparr>"
| "item_set page (Outside offno) itemId = page\<lparr>pd_outside := (pd_outside page)(offno := itemId)\<rparr>"

definition PageGetItem :: "Page \<Rightarrow> ItemIdData \<Rightarrow> HeapTupleHeaderData" where
  "PageGetItem page itemId = pd_items page (lp_off itemId)"

definition PageIsAllVisible :: "Page \<Rightarrow> bool" where
  "PageIsAllVisible page \<longleftrightarrow> pd_flags page AND PD_ALL_VISIBLE \<noteq> 0"

definition PageClearAllVisible :: "Page \<Rightarrow> Page" where
  "PageClearAllVisible page = page\<lparr>pd_flags := pd_flags page AND NOT PD_ALL_VISIBLE\<rparr>"

text \<open>
  Modelled from the spec: \<open>visibilitymap_clear\<close> and \<open>RelationGetNumberOfBlocks\<close> are
  PostgreSQL's, not part of the source files. Clearing resets the given bits of the
  block's entry in the visibility summary; the block count is the number of pages.
\<close>

definition visibilitymap_clear ::
  "(BlockNumber \<Rightarrow> 8 word) \<Rightarrow> BlockNumber \<Rightarrow> 8 word \<Rightarrow> (BlockNumber \<Rightarrow> 8 word)" where
  "visibilitymap_clear vm heapBlk flags = vm(heapBlk := vm heapBlk AND NOT flags)"

definition RelationGetNumberOfBlocks :: "Relation \<Rightarrow> BlockNumber" where
  "RelationGetNumberOfBlocks rel = of_nat (length (rd_pages rel))"

text \<open>
  Modelled from the spec: \<open>ItemPointerCompare\<close> is PostgreSQL's, not part of the source
  files. It is the total order of row identifiers, first by block number, then by
  offset number, as -1, 0 or +1.
\<close>

definition ItemPointerCompare :: "ItemPointerData \<Rightarrow> ItemPointerData \<Rightarrow> int" where
  "ItemPointerCompare arg1 arg2 =
     (if ip_blkid arg1 < ip_blkid arg2 then - 1
      else if ip_blkid arg2 < ip_blkid arg1 then 1
      else if ip_posid arg1 < ip_posid arg2 then - 1
      else if ip_posid arg2 < ip_posid arg1 then 1
      else 0)"

section \<open>The functions of heap\_surgery.c\<close>

subsection \<open>tidcmp and the sort\<close>

definition tidcmp :: "ItemPointerData \<Rightarrow> ItemPointerData \<Rightarrow> int" where
  "tidcmp a b = ItemPointerCompare a b"

text \<open>
  \<^verbatim>\<open>qsort(tids, ntids, sizeof(ItemPointerData), tidcmp)\<close>: the array sorted by
  \<open>tidcmp\<close>. Two row identifiers that compare equal are the same value, so every
  sorting algorithm gives the same array; the model inserts one element at a time.
\<close>

fun qsort_insert :: "ItemPointerData \<Rightarrow> ItemPointerData list \<Rightarrow> ItemPointerData list" where
  "qsort_insert t [] = [t]"
| "qsort_insert t (u # us) = (if tidcmp t u \<le> 0 then t # u # us else u # qsort_insert t us)"

fun qsort :: "ItemPointerData list \<Rightarrow> ItemPointerData list" where
  "qsort [] = []"
| "qsort (t # ts) = qsort_insert t (qsort ts)"

subsection \<open>sanity\_check\_tid\_array and sanity\_check\_relation\<close>

text \<open>
  The array argument is the list of its elements, \<open>None\<close> for a null. The function
  returns the number of elements through \<^verbatim>\<open>*ntids\<close>.
\<close>

definition sanity_check_tid_array :: "ItemPointerData option list \<Rightarrow> error + nat" where
  "sanity_check_tid_array ta =
     (if None \<in> set ta then Inl NullValueNotAllowed
      else let ntids = length ta in
        if ntids = 0 then Inl EmptyTidArray else Inr ntids)"

definition sanity_check_relation :: "Relation \<Rightarrow> error + unit" where
  "sanity_check_relation rel =
     (if relkind rel \<noteq> RELKIND_RELATION \<and>
         relkind rel \<noteq> RELKIND_MATVIEW \<and>
         relkind rel \<noteq> RELKIND_TOASTVALUE then Inl WrongObjectType
      else if \<not> rd_owned rel then Inl NotOwner
      else Inr ())"

subsection \<open>tids\_same\_page\_fetch\_offnums\<close>

text \<open>
  The \<^verbatim>\<open>for\<close> loop of the function, from index \<open>i\<close>: \<open>start\<close> is the value of
  \<^verbatim>\<open>*next_start_ptr\<close> at entry, \<open>ntids\<close> is the length of \<open>tids\<close>. It returns the
  final \<open>i\<close>, \<open>prev_blkno\<close> and the array \<open>offnos\<close>.
\<close>

function fetch_offnums_loop ::
  "ItemPointerData list \<Rightarrow> nat \<Rightarrow> nat \<Rightarrow> BlockNumber \<Rightarrow> OffsetNumber list
     \<Rightarrow> nat \<times> BlockNumber \<times> OffsetNumber list" where
  "fetch_offnums_loop tids start i prev_blkno offnos =
     (if i < length tids then
        (let tid = tids ! i;
             blkno = ip_blkid tid;
             offno = ip_posid tid
         in if i = start \<or> prev_blkno = blkno
            then fetch_offnums_loop tids start (Suc i) blkno (offnos[i - start := offno])
            else (i, prev_blkno, offnos))
      else (i, prev_blkno, offnos))"
  by pat_completeness auto
termination
  by (relation "measure (\<lambda>(tids, start, i, prev_blkno, offnos). length tids - i)") auto

declare fetch_offnums_loop.simps [simp del]

text \<open>
  The function returns the block number, and the new \<^verbatim>\<open>*next_start_ptr\<close> and the
  contents of \<open>offnos\<close> through its pointer arguments. The assignment
  \<^verbatim>\<open>*next_start_ptr = i\<close> converts the \<^verbatim>\<open>int\<close> \<open>i\<close> to the 16-bit \<open>OffsetNumber\<close>.
\<close>

definition tids_same_page_fetch_offnums ::
  "ItemPointerData list \<Rightarrow> OffsetNumber \<Rightarrow> OffsetNumber list
     \<Rightarrow> BlockNumber \<times> OffsetNumber \<times> OffsetNumber list" where
  "tids_same_page_fetch_offnums tids next_start_ptr offnos =
     (case fetch_offnums_loop tids (unat next_start_ptr) (unat next_start_ptr)
             InvalidBlockNumber offnos of
        (i, prev_blkno, offnos') \<Rightarrow> (prev_blkno, of_nat i, offnos'))"

subsection \<open>heap\_force\_common\<close>

text \<open>
  The loop \<^verbatim>\<open>while (ItemIdIsRedirected(itemid))\<close>, from the address \<open>itemid\<close> to the
  address it ends at. The C code has no bound on it (\<^verbatim>\<open>CHECK_FOR_INTERRUPTS\<close> does
  nothing inside a critical section) and no range check on the offset a redirect
  holds, so the model has neither: where the loop does not end, the result is \<open>None\<close>.
\<close>

partial_function (option) follow_redirections :: "Page \<Rightarrow> ItemId \<Rightarrow> ItemId option" where
  "follow_redirections page itemid =
     (if ItemIdIsRedirected (item_at page itemid) then
        (let offno = ItemIdGetRedirect (item_at page itemid)
         in follow_redirections page (PageGetItemId page offno))
      else Some itemid)"

text \<open>The branch \<^verbatim>\<open>heap_force_opt == HEAP_FORCE_KILL\<close> for the line pointer at \<open>itemid\<close>.\<close>

definition force_kill_item :: "BlockNumber \<Rightarrow> ItemId \<Rightarrow> PageSession \<Rightarrow> PageSession" where
  "force_kill_item blkno itemid s =
     (let page = s_page s;
          page1 = item_set page itemid (ItemIdSetDead (item_at page itemid))
      in if PageIsAllVisible page1
         then s\<lparr>s_page := PageClearAllVisible page1,
                s_vm := visibilitymap_clear (s_vm s) blkno VISIBILITYMAP_ALL_VISIBLE,
                did_modify_vm := True\<rparr>
         else s\<lparr>s_page := page1\<rparr>)"

text \<open>
  The branch \<^verbatim>\<open>heap_force_opt == HEAP_FORCE_FREEZE\<close>, on the tuple header \<open>htup\<close>;
  \<open>offno\<close> is \<^verbatim>\<open>offnos[i]\<close>, the offset of the targeted row identifier.
\<close>

definition force_freeze_htup ::
  "BlockNumber \<Rightarrow> OffsetNumber \<Rightarrow> HeapTupleHeaderData \<Rightarrow> HeapTupleHeaderData" where
  "force_freeze_htup blkno offno htup =
     (let ctid = \<lparr>ip_blkid = blkno, ip_posid = offno\<rparr>;
          htup1 = (if ctid \<noteq> t_ctid htup then htup\<lparr>t_ctid := ctid\<rparr> else htup);
          htup2 = htup1\<lparr>t_xmin := FrozenTransactionId\<rparr>;
          htup3 = htup2\<lparr>t_xmax := InvalidTransactionId\<rparr>;
          htup4 = (if t_infomask htup3 AND HEAP_MOVED \<noteq> 0 then
                     (if t_infomask htup3 AND HEAP_MOVED_OFF \<noteq> 0
                      then htup3\<lparr>t_xvac := InvalidTransactionId\<rparr>
                      else htup3\<lparr>t_xvac := FrozenTransactionId\<rparr>)
                   else htup3);
          htup5 = htup4\<lparr>t_infomask := t_infomask htup4 AND NOT HEAP_XACT_MASK\<rparr>;
          htup6 = htup5\<lparr>t_infomask := t_infomask htup5 OR (HEAP_XMIN_FROZEN OR HEAP_XMAX_INVALID)\<rparr>;
          htup7 = htup6\<lparr>t_infomask2 := t_infomask2 htup6 AND NOT HEAP_HOT_UPDATED\<rparr>
      in htup7\<lparr>t_infomask2 := t_infomask2 htup7 AND NOT HEAP_KEYS_UPDATED\<rparr>)"

definition force_freeze_item ::
  "BlockNumber \<Rightarrow> OffsetNumber \<Rightarrow> ItemId \<Rightarrow> PageSession \<Rightarrow> PageSession" where
  "force_freeze_item blkno offno itemid s =
     (let page = s_page s;
          itemId = item_at page itemid;
          htup = PageGetItem page itemId
      in s\<lparr>s_page := page\<lparr>pd_items :=
             (pd_items page)(lp_off itemId := force_freeze_htup blkno offno htup)\<rparr>\<rparr>)"

text \<open>
  One round of the loop \<^verbatim>\<open>for (i = 0; i < noffs; i++)\<close>, for \<open>offno = offnos[i]\<close>.
  The \<^verbatim>\<open>Assert\<close> is not executed. Nothing is raised in the critical section: a round
  ends, or its redirect loop runs forever.
\<close>

definition heap_force_item ::
  "HeapTupleForceOption \<Rightarrow> BlockNumber \<Rightarrow> OffsetNumber \<Rightarrow> OffsetNumber \<Rightarrow> PageSession
     \<Rightarrow> (stop + PageSession) option" where
  "heap_force_item heap_force_opt blkno maxoffset offno s =
     (if offno = 0 \<or> maxoffset < offno
      then Some (Inr (s\<lparr>s_log := s_log s @ [Notice (OffsetOutOfRange blkno offno)]\<rparr>))
      else
        Option.bind (follow_redirections (s_page s) (PageGetItemId (s_page s) offno)) (\<lambda>itemid.
          (let itemId = item_at (s_page s) itemid
           in if \<not> ItemIdIsUsed itemId \<or> ItemIdIsDead itemId then
                (if \<not> ItemIdIsUsed itemId
                 then Some (Inr (s\<lparr>s_log := s_log s @ [Notice (AlreadyUnused blkno offno)]\<rparr>))
                 else Some (Inr (s\<lparr>s_log := s_log s @ [Notice (AlreadyDead blkno offno)]\<rparr>)))
              else
                (let s1 = s\<lparr>did_modify_page := True\<rparr>
                 in if heap_force_opt = HEAP_FORCE_KILL
                    then Some (Inr (force_kill_item blkno itemid s1))
                    else Some (Inr (force_freeze_item blkno offno itemid s1))))))"

text \<open>The loop \<^verbatim>\<open>for (i = 0; i < noffs; i++)\<close> over the offsets of one page.\<close>

fun heap_force_items ::
  "HeapTupleForceOption \<Rightarrow> BlockNumber \<Rightarrow> OffsetNumber \<Rightarrow> OffsetNumber list \<Rightarrow> PageSession
     \<Rightarrow> (stop + PageSession) option" where
  "heap_force_items heap_force_opt blkno maxoffset [] s = Some (Inr s)"
| "heap_force_items heap_force_opt blkno maxoffset (offno # offnos) s =
     Option.bind (heap_force_item heap_force_opt blkno maxoffset offno s) (\<lambda>r.
       case r of
         Inl e \<Rightarrow> Some (Inl e)
       | Inr s' \<Rightarrow> heap_force_items heap_force_opt blkno maxoffset offnos s')"

text \<open>
  The work on one page is the body of the \<^verbatim>\<open>do\<close> loop after the cursors are set.
  The page is changed in the buffer in C; the model changes the page of the session
  and puts it back into the relation when the buffer is released, nothing else runs
  in between.

  \<open>begin_page\<close> is the part from \<^verbatim>\<open>ReadBuffer\<close> to \<^verbatim>\<open>START_CRIT_SECTION\<close>: the
  buffer is read and locked, and the visibility map page is pinned for a kill on an
  all-visible page. A pending interrupt (\<^verbatim>\<open>CHECK_FOR_INTERRUPTS\<close> before the read) and
  the wait for the cleanup lock are outside the model.
\<close>

definition begin_page :: "HeapTupleForceOption \<Rightarrow> BlockNumber \<Rightarrow> Relation \<Rightarrow> PageSession" where
  "begin_page heap_force_opt blkno rel =
     (let page = rd_pages rel ! unat blkno;
          log1 = rd_log rel @ [ReadBuffer blkno];
          log2 = (if heap_force_opt = HEAP_FORCE_KILL \<and> PageIsAllVisible page
                  then log1 @ [VisibilitymapPin blkno] else log1)
      in \<lparr>s_page = page, s_vm = rd_vm rel, s_log = log2,
           did_modify_page = False, did_modify_vm = False\<rparr>)"

text \<open>
  \<open>end_page\<close> is the part after the \<^verbatim>\<open>for\<close> loop: the buffer is marked dirty and
  logged when the page was modified, the visibility map page is logged when it was
  modified, and the buffers are released.
\<close>

definition end_page :: "BlockNumber \<Rightarrow> Relation \<Rightarrow> PageSession \<Rightarrow> Relation" where
  "end_page blkno rel s =
     (let log3 = (if did_modify_page s
                  then s_log s @ [MarkBufferDirty blkno] @
                       (if rd_needs_wal rel then [LogNewpageBuffer blkno] else [])
                  else s_log s);
          log4 = (if did_modify_vm s \<and> rd_needs_wal rel
                  then log3 @ [LogNewpageVm blkno] else log3)
      in rel\<lparr>rd_pages := (rd_pages rel)[unat blkno := s_page s],
              rd_vm := s_vm s, rd_log := log4\<rparr>)"

text \<open>
  The body of the \<^verbatim>\<open>do\<close> loop after the cursors are set: the work on block \<open>blkno\<close>
  with the offsets \<^verbatim>\<open>offnos[0 .. noffs - 1]\<close>. \<^verbatim>\<open>continue\<close> ends the body. A block
  below \<open>nblocks\<close> is a block of the relation when \<open>nblocks\<close> is its number of blocks.
\<close>

definition heap_force_page ::
  "HeapTupleForceOption \<Rightarrow> BlockNumber \<Rightarrow> BlockNumber \<Rightarrow> OffsetNumber list \<Rightarrow> Relation
     \<Rightarrow> (stop + Relation) option" where
  "heap_force_page heap_force_opt nblocks blkno offnos rel =
     (if nblocks \<le> blkno
      then Some (Inr (rel\<lparr>rd_log := rd_log rel @ [Notice (BlockOutOfRange blkno)]\<rparr>))
      else
        (let s0 = begin_page heap_force_opt blkno rel;
             maxoffset = PageGetMaxOffsetNumber (s_page s0)
         in Option.bind (heap_force_items heap_force_opt blkno maxoffset offnos s0) (\<lambda>r.
              case r of
                Inl e \<Rightarrow> Some (Inl e)
              | Inr s \<Rightarrow> Some (Inr (end_page blkno rel s)))))"

text \<open>
  The \<^verbatim>\<open>do ... while (next_start_ptr != ntids)\<close> loop. \<open>visit\<close> is the body after the
  cursors are set (\<open>heap_force_page\<close> in \<open>heap_force_common\<close>); it gets the block number
  and the first \<open>noffs\<close> entries of \<open>offnos\<close>. The cursors are 16-bit, and
  \<^verbatim>\<open>noffs = next_start_ptr - curr_start_ptr\<close> is computed in 16 bits; the comparison
  with \<^verbatim>\<open>ntids\<close> is one of integers.
\<close>

partial_function (option) group_loop ::
  "(BlockNumber \<Rightarrow> OffsetNumber list \<Rightarrow> 's \<Rightarrow> (stop + 's) option) \<Rightarrow> ItemPointerData list
     \<Rightarrow> OffsetNumber \<Rightarrow> OffsetNumber \<Rightarrow> OffsetNumber list \<Rightarrow> 's \<Rightarrow> (stop + 's) option" where
  "group_loop visit tids curr_start_ptr next_start_ptr offnos s =
     (case tids_same_page_fetch_offnums tids next_start_ptr offnos of
        (blkno, next_start_ptr', offnos') \<Rightarrow>
          (let noffs = next_start_ptr' - curr_start_ptr;
               curr_start_ptr' = next_start_ptr'
           in Option.bind (visit blkno (take (unat noffs) offnos') s) (\<lambda>r.
                case r of
                  Inl e \<Rightarrow> Some (Inl e)
                | Inr s' \<Rightarrow>
                    if unat next_start_ptr' \<noteq> length tids
                    then group_loop visit tids curr_start_ptr' next_start_ptr' offnos' s'
                    else Some (Inr s'))))"

text \<open>
  \<open>in_recovery\<close> is the answer of \<^verbatim>\<open>RecoveryInProgress()\<close>, \<open>ta\<close> the array argument,
  \<open>rel\<close> the relation that \<^verbatim>\<open>relation_open\<close> returns. \<^verbatim>\<open>palloc\<close> gives \<open>offnos\<close> with
  unset entries; the model starts from zeros.
\<close>

definition heap_force_common ::
  "bool \<Rightarrow> HeapTupleForceOption \<Rightarrow> ItemPointerData option list \<Rightarrow> Relation
     \<Rightarrow> (stop + Relation) option" where
  "heap_force_common in_recovery heap_force_opt ta rel =
     (if in_recovery then Some (Inl (Raised RecoveryInProgress rel))
      else case sanity_check_tid_array ta of
          Inl e \<Rightarrow> Some (Inl (Raised e rel))
        | Inr ntids \<Rightarrow>
            (case sanity_check_relation rel of
               Inl e \<Rightarrow> Some (Inl (Raised e rel))
             | Inr _ \<Rightarrow>
                 (let tids = map the ta;
                      tids' = (if 1 < ntids then qsort tids else tids);
                      offnos = replicate ntids 0;
                      nblocks = RelationGetNumberOfBlocks rel
                  in group_loop (heap_force_page heap_force_opt nblocks) tids' 0 0 offnos rel)))"

definition heap_force_kill ::
  "bool \<Rightarrow> ItemPointerData option list \<Rightarrow> Relation \<Rightarrow> (stop + Relation) option" where
  "heap_force_kill in_recovery ta rel = heap_force_common in_recovery HEAP_FORCE_KILL ta rel"

definition heap_force_freeze ::
  "bool \<Rightarrow> ItemPointerData option list \<Rightarrow> Relation \<Rightarrow> (stop + Relation) option" where
  "heap_force_freeze in_recovery ta rel = heap_force_common in_recovery HEAP_FORCE_FREEZE ta rel"

text \<open>
  The page groups that the \<^verbatim>\<open>do\<close> loop visits: the loop with a body that only
  records the block number and the offsets it is given.
\<close>

definition record_group ::
  "BlockNumber \<Rightarrow> OffsetNumber list \<Rightarrow> (BlockNumber \<times> OffsetNumber list) list
     \<Rightarrow> (stop + (BlockNumber \<times> OffsetNumber list) list) option" where
  "record_group blkno offnos gs = Some (Inr (gs @ [(blkno, offnos)]))"

definition page_groups ::
  "ItemPointerData list \<Rightarrow> (stop + (BlockNumber \<times> OffsetNumber list) list) option" where
  "page_groups tids = group_loop record_group tids 0 0 (replicate (length tids) 0) []"

section \<open>Definitions for stating the properties\<close>

text \<open>
  The maximal runs of equal block number in a list of row identifiers, each with the
  offsets of the run in the order of the list.
\<close>

function page_runs :: "ItemPointerData list \<Rightarrow> (BlockNumber \<times> OffsetNumber list) list" where
  "page_runs [] = []"
| "page_runs (t # ts) =
     (ip_blkid t, map ip_posid (t # takeWhile (\<lambda>u. ip_blkid u = ip_blkid t) ts)) #
      page_runs (dropWhile (\<lambda>u. ip_blkid u = ip_blkid t) ts)"
  by pat_completeness auto
termination
  by (relation "measure length") (auto simp: le_imp_less_Suc length_dropWhile_le)

text \<open>
  Visiting a list of page groups one after the other, stopping at the first stop.
\<close>

fun visit_groups ::
  "(BlockNumber \<Rightarrow> OffsetNumber list \<Rightarrow> 's \<Rightarrow> (stop + 's) option)
     \<Rightarrow> (BlockNumber \<times> OffsetNumber list) list \<Rightarrow> 's \<Rightarrow> (stop + 's) option" where
  "visit_groups visit [] s = Some (Inr s)"
| "visit_groups visit ((blkno, offnos) # gs) s =
     Option.bind (visit blkno offnos s) (\<lambda>r.
       case r of
         Inl e \<Rightarrow> Some (Inl e)
       | Inr s' \<Rightarrow> visit_groups visit gs s')"

text \<open>
  The row identifiers a page group stands for.
\<close>

definition group_tids :: "BlockNumber \<times> OffsetNumber list \<Rightarrow> ItemPointerData list" where
  "group_tids g = map (\<lambda>offno. \<lparr>ip_blkid = fst g, ip_posid = offno\<rparr>) (snd g)"

text \<open>
  The order of \<open>tidcmp\<close> as a relation: \<open>a\<close> is before \<open>b\<close> or equal to it.
\<close>

definition tid_le :: "ItemPointerData \<Rightarrow> ItemPointerData \<Rightarrow> bool" where
  "tid_le a b \<longleftrightarrow> tidcmp a b \<le> 0"

text \<open>
  The redirect loop cut off after \<open>n\<close> rounds: \<open>None\<close> when \<open>n\<close> rounds do not reach
  the end of the loop.
\<close>

fun follow_bounded :: "nat \<Rightarrow> Page \<Rightarrow> ItemId \<Rightarrow> ItemId option" where
  "follow_bounded 0 page itemid =
     (if ItemIdIsRedirected (item_at page itemid) then None else Some itemid)"
| "follow_bounded (Suc n) page itemid =
     (if ItemIdIsRedirected (item_at page itemid) then
        (let offno = ItemIdGetRedirect (item_at page itemid)
         in follow_bounded n page (PageGetItemId page offno))
      else Some itemid)"

text \<open>
  The addresses that a write may go to: the entries of the array, and the addresses
  outside of it.
\<close>

fun valid_itemid :: "Page \<Rightarrow> ItemId \<Rightarrow> bool" where
  "valid_itemid page (Slot i) \<longleftrightarrow> i < length (pd_linp page)"
| "valid_itemid page (Outside offno) \<longleftrightarrow> True"




text \<open>
  \<open>same_redirects page page'\<close>: the two pages have as many line pointers, the same
  addresses hold a redirect, and each redirect holds the same offset.
\<close>

definition same_redirects :: "Page \<Rightarrow> Page \<Rightarrow> bool" where
  "same_redirects page page' \<longleftrightarrow>
     length (pd_linp page') = length (pd_linp page) \<and>
     (\<forall>itemid. ItemIdIsRedirected (item_at page' itemid) = ItemIdIsRedirected (item_at page itemid) \<and>
        (ItemIdIsRedirected (item_at page itemid) \<longrightarrow>
           ItemIdGetRedirect (item_at page' itemid) = ItemIdGetRedirect (item_at page itemid)))"

definition same_redirects_rel :: "Relation \<Rightarrow> Relation \<Rightarrow> bool" where
  "same_redirects_rel rel rel' \<longleftrightarrow>
     length (rd_pages rel') = length (rd_pages rel) \<and>
     (\<forall>i<length (rd_pages rel). same_redirects (rd_pages rel ! i) (rd_pages rel' ! i))"

text \<open>
  The line pointer that the code reaches for a targeted offset of a page: none when
  the offset is out of range for the page, or when the redirect loop does not end.
\<close>

definition target_slot :: "Page \<Rightarrow> OffsetNumber \<Rightarrow> ItemIdData option" where
  "target_slot page offno =
     (if offno = 0 \<or> PageGetMaxOffsetNumber page < offno then None
      else map_option (item_at page) (follow_redirections page (PageGetItemId page offno)))"

text \<open>
  \<open>redirects_end page offno\<close>: for the targeted offset, the redirect loop is not
  entered (the offset is out of range for the page) or it ends.
\<close>

definition redirects_end :: "Page \<Rightarrow> OffsetNumber \<Rightarrow> bool" where
  "redirects_end page offno \<longleftrightarrow>
     offno = 0 \<or> PageGetMaxOffsetNumber page < offno \<or>
     follow_redirections page (PageGetItemId page offno) \<noteq> None"

text \<open>
  \<open>targets_row page offno off\<close>: the targeted offset resolves to a normal slot whose row
  is stored at the byte offset \<open>off\<close> of the page.
\<close>

definition targets_row :: "Page \<Rightarrow> OffsetNumber \<Rightarrow> 15 word \<Rightarrow> bool" where
  "targets_row page offno off \<longleftrightarrow>
     (case target_slot page offno of
        None \<Rightarrow> False
      | Some itemId \<Rightarrow> ItemIdIsNormal itemId \<and> lp_off itemId = off)"

text \<open>
  \<open>frozen_last blkno D page page' off\<close>: the row at the byte offset \<open>off\<close> is, on
  \<open>page'\<close>, the row of \<open>page\<close> frozen for the greatest of the offsets of \<open>D\<close> that
  resolve to it.
\<close>

definition frozen_last :: "BlockNumber \<Rightarrow> OffsetNumber set \<Rightarrow> Page \<Rightarrow> Page \<Rightarrow> 15 word \<Rightarrow> bool" where
  "frozen_last blkno D page page' off \<longleftrightarrow>
     (\<exists>offno\<in>D. targets_row page offno off \<and>
        (\<forall>offno'\<in>D. targets_row page offno' off \<longrightarrow> offno' \<le> offno) \<and>
        pd_items page' off = force_freeze_htup blkno offno (pd_items page off))"

text \<open>
  What a freeze keeps true of a page, from its state \<open>page\<close> before the call to its
  state \<open>page'\<close> now, when \<open>D\<close> are the offsets it has worked on: the line pointers are
  as they were, the rows that offsets of \<open>D\<close> resolve to are frozen for the greatest of
  them, and the other rows are as they were.
\<close>

definition freeze_inv :: "BlockNumber \<Rightarrow> Page \<Rightarrow> Page \<Rightarrow> OffsetNumber set \<Rightarrow> bool" where
  "freeze_inv blkno page page' D \<longleftrightarrow>
     pd_linp page' = pd_linp page \<and> pd_outside page' = pd_outside page \<and>
     (\<forall>off. if \<exists>offno\<in>D. targets_row page offno off
            then frozen_last blkno D page page' off
            else pd_items page' off = pd_items page off)"

definition freeze_rel_inv ::
  "Relation \<Rightarrow> Relation \<Rightarrow> (BlockNumber \<times> OffsetNumber) set \<Rightarrow> bool" where
  "freeze_rel_inv rel rel' D \<longleftrightarrow>
     length (rd_pages rel') = length (rd_pages rel) \<and>
     (\<forall>b. unat b < length (rd_pages rel) \<longrightarrow>
        freeze_inv b (rd_pages rel ! unat b) (rd_pages rel' ! unat b) {offno. (b, offno) \<in> D})"

text \<open>
  The offsets of the batch on a block.
\<close>

definition batch_offsets :: "ItemPointerData option list \<Rightarrow> BlockNumber \<Rightarrow> OffsetNumber set" where
  "batch_offsets ta blkno = {ip_posid tid |tid. Some tid \<in> set ta \<and> ip_blkid tid = blkno}"

text \<open>
  The block an entry of the trace is about.
\<close>

fun event_block :: "event \<Rightarrow> BlockNumber" where
  "event_block (Notice (BlockOutOfRange blkno)) = blkno"
| "event_block (Notice (OffsetOutOfRange blkno offno)) = blkno"
| "event_block (Notice (AlreadyUnused blkno offno)) = blkno"
| "event_block (Notice (AlreadyDead blkno offno)) = blkno"
| "event_block (ReadBuffer blkno) = blkno"
| "event_block (VisibilitymapPin blkno) = blkno"
| "event_block (MarkBufferDirty blkno) = blkno"
| "event_block (LogNewpageBuffer blkno) = blkno"
| "event_block (LogNewpageVm blkno) = blkno"

text \<open>
  \<open>marked_dead page page'\<close>: some line pointer that is not dead on \<open>page\<close> is dead on
  \<open>page'\<close>, that is, a row of the page has been marked dead in between; the line
  pointer is an entry of the array, or one the code took from outside of it.
\<close>

definition marked_dead :: "Page \<Rightarrow> Page \<Rightarrow> bool" where
  "marked_dead page page' \<longleftrightarrow>
     list_ex (\<lambda>(itemId, itemId'). \<not> ItemIdIsDead itemId \<and> ItemIdIsDead itemId')
       (zip (pd_linp page) (pd_linp page')) \<or>
     (\<exists>offno. \<not> ItemIdIsDead (pd_outside page offno) \<and> ItemIdIsDead (pd_outside page' offno))"

text \<open>
  What a kill keeps true of a page, from its state \<open>page0\<close> before the call to its
  state \<open>page\<close> now, with \<open>vmbits\<close> the visibility map bits of the block: the line
  pointer array keeps its length, dead slots stay dead, once a row has been marked dead
  the all-visible flag is clear (and so is the visibility map bit when the flag was
  set before the call), and until then the flag word is the one before the call.
\<close>

definition kill_inv :: "Page \<Rightarrow> Page \<Rightarrow> 8 word \<Rightarrow> bool" where
  "kill_inv page0 page vmbits \<longleftrightarrow>
     length (pd_linp page) = length (pd_linp page0) \<and>
     (\<forall>itemid. valid_itemid page0 itemid \<longrightarrow> ItemIdIsDead (item_at page0 itemid) \<longrightarrow>
        ItemIdIsDead (item_at page itemid)) \<and>
     (marked_dead page0 page \<longrightarrow>
        \<not> PageIsAllVisible page \<and>
        (PageIsAllVisible page0 \<longrightarrow> vmbits AND VISIBILITYMAP_ALL_VISIBLE = 0)) \<and>
     (\<not> marked_dead page0 page \<longrightarrow> pd_flags page = pd_flags page0)"

definition kill_rel_inv :: "Relation \<Rightarrow> Relation \<Rightarrow> bool" where
  "kill_rel_inv rel0 rel \<longleftrightarrow>
     length (rd_pages rel) = length (rd_pages rel0) \<and>
     (\<forall>b. unat b < length (rd_pages rel0) \<longrightarrow>
        kill_inv (rd_pages rel0 ! unat b) (rd_pages rel ! unat b) (rd_vm rel b))"

section \<open>Example states\<close>

text \<open>
  The table \<^verbatim>\<open>htab\<close> of the regression test \<^verbatim>\<open>sql/pg_surgery.sql\<close>: one page with five
  rows, inserted by transaction 700.
\<close>

definition htab_htup :: HeapTupleHeaderData where
  "htab_htup = \<lparr>t_xmin = 700, t_xmax = 0, t_xvac = 0,
     t_ctid = \<lparr>ip_blkid = 0, ip_posid = 1\<rparr>, t_infomask2 = 0x0001, t_infomask = 0x0800\<rparr>"

text \<open>
  The free space of these pages is zero: every address outside the line pointer array
  holds an unused slot.
\<close>

definition unused_slot :: ItemIdData where
  "unused_slot = \<lparr>lp_off = 0, lp_flags = LP_UNUSED, lp_len = 0\<rparr>"

definition htab_page :: Page where
  "htab_page = \<lparr>pd_flags = 0,
     pd_linp = [\<lparr>lp_off = 8160, lp_flags = LP_NORMAL, lp_len = 28\<rparr>,
                \<lparr>lp_off = 8128, lp_flags = LP_NORMAL, lp_len = 28\<rparr>,
                \<lparr>lp_off = 8096, lp_flags = LP_NORMAL, lp_len = 28\<rparr>,
                \<lparr>lp_off = 8064, lp_flags = LP_NORMAL, lp_len = 28\<rparr>,
                \<lparr>lp_off = 8032, lp_flags = LP_NORMAL, lp_len = 28\<rparr>],
     pd_items = (\<lambda>off. htab_htup), pd_outside = (\<lambda>offno. unused_slot)\<rparr>"

definition htab :: Relation where
  "htab = \<lparr>relkind = RELKIND_RELATION, rd_owned = True, rd_needs_wal = True,
     rd_pages = [htab_page], rd_vm = (\<lambda>blkno. 0), rd_log = []\<rparr>"

text \<open>
  The view \<^verbatim>\<open>vw\<close> of the regression test: not a table, no pages.
\<close>

definition vw :: Relation where
  "vw = \<lparr>relkind = CHR ''v'', rd_owned = True, rd_needs_wal = False,
     rd_pages = [], rd_vm = (\<lambda>blkno. 0), rd_log = []\<rparr>"

definition tid_0_4 :: ItemPointerData where
  "tid_0_4 = \<lparr>ip_blkid = 0, ip_posid = 4\<rparr>"

definition tid_0_1 :: ItemPointerData where
  "tid_0_1 = \<lparr>ip_blkid = 0, ip_posid = 1\<rparr>"

definition tid_0_3 :: ItemPointerData where
  "tid_0_3 = \<lparr>ip_blkid = 0, ip_posid = 3\<rparr>"

definition tid_3_1 :: ItemPointerData where
  "tid_3_1 = \<lparr>ip_blkid = 3, ip_posid = 1\<rparr>"

definition tid_0_2 :: ItemPointerData where
  "tid_0_2 = \<lparr>ip_blkid = 0, ip_posid = 2\<rparr>"

text \<open>
  A page with two redirects that point to each other.
\<close>

definition cycle_page :: Page where
  "cycle_page = \<lparr>pd_flags = 0,
     pd_linp = [\<lparr>lp_off = 2, lp_flags = LP_REDIRECT, lp_len = 0\<rparr>,
                \<lparr>lp_off = 1, lp_flags = LP_REDIRECT, lp_len = 0\<rparr>],
     pd_items = (\<lambda>off. htab_htup), pd_outside = (\<lambda>offno. unused_slot)\<rparr>"

definition cycle_rel :: Relation where
  "cycle_rel = \<lparr>relkind = RELKIND_RELATION, rd_owned = True, rd_needs_wal = True,
     rd_pages = [cycle_page], rd_vm = (\<lambda>blkno. 0), rd_log = []\<rparr>"

text \<open>
  A page with a redirect to the offset 3, behind its two line pointers.
\<close>

definition stray_page :: Page where
  "stray_page = \<lparr>pd_flags = 0,
     pd_linp = [\<lparr>lp_off = 3, lp_flags = LP_REDIRECT, lp_len = 0\<rparr>,
                \<lparr>lp_off = 8160, lp_flags = LP_NORMAL, lp_len = 28\<rparr>],
     pd_items = (\<lambda>off. htab_htup), pd_outside = (\<lambda>offno. unused_slot)\<rparr>"

definition stray_rel :: Relation where
  "stray_rel = \<lparr>relkind = RELKIND_RELATION, rd_owned = True, rd_needs_wal = True,
     rd_pages = [stray_page], rd_vm = (\<lambda>blkno. 0), rd_log = []\<rparr>"

text \<open>
  A page that is marked all-visible, with a redirect to a normal slot, a dead slot and
  an unused slot, in a table whose visibility map has the bit of the page set; and
  the work on that page just after the buffer is read.
\<close>

definition hot_page :: Page where
  "hot_page = \<lparr>pd_flags = PD_ALL_VISIBLE,
     pd_linp = [\<lparr>lp_off = 2, lp_flags = LP_REDIRECT, lp_len = 0\<rparr>,
                \<lparr>lp_off = 8128, lp_flags = LP_NORMAL, lp_len = 28\<rparr>,
                \<lparr>lp_off = 0, lp_flags = LP_DEAD, lp_len = 0\<rparr>,
                \<lparr>lp_off = 0, lp_flags = LP_UNUSED, lp_len = 0\<rparr>],
     pd_items = (\<lambda>off. htab_htup), pd_outside = (\<lambda>offno. unused_slot)\<rparr>"

definition hot_rel :: Relation where
  "hot_rel = \<lparr>relkind = RELKIND_RELATION, rd_owned = True, rd_needs_wal = True,
     rd_pages = [hot_page], rd_vm = (\<lambda>blkno. VISIBILITYMAP_ALL_VISIBLE), rd_log = []\<rparr>"


text \<open>
  The example table after \<^verbatim>\<open>heap_force_freeze\<close> of the row identifiers (3, 1) and
  (0, 1), and after \<^verbatim>\<open>heap_force_kill\<close> of the row identifier (0, 1).
\<close>

definition hot_page_frozen :: Page where
  "hot_page_frozen = hot_page\<lparr>pd_items := (pd_items hot_page)
     (8128 := \<lparr>t_xmin = 2, t_xmax = 0, t_xvac = 0,
        t_ctid = \<lparr>ip_blkid = 0, ip_posid = 1\<rparr>, t_infomask2 = 0x0001, t_infomask = 0x0B00\<rparr>)\<rparr>"

definition hot_rel_frozen :: Relation where
  "hot_rel_frozen = hot_rel\<lparr>rd_pages := [hot_page_frozen],
     rd_log := [ReadBuffer 0, MarkBufferDirty 0, LogNewpageBuffer 0, Notice (BlockOutOfRange 3)]\<rparr>"

definition hot_page_killed :: Page where
  "hot_page_killed = \<lparr>pd_flags = 0,
     pd_linp = [\<lparr>lp_off = 2, lp_flags = LP_REDIRECT, lp_len = 0\<rparr>,
                \<lparr>lp_off = 0, lp_flags = LP_DEAD, lp_len = 0\<rparr>,
                \<lparr>lp_off = 0, lp_flags = LP_DEAD, lp_len = 0\<rparr>,
                \<lparr>lp_off = 0, lp_flags = LP_UNUSED, lp_len = 0\<rparr>],
     pd_items = (\<lambda>off. htab_htup), pd_outside = (\<lambda>offno. unused_slot)\<rparr>"

definition hot_rel_killed :: Relation where
  "hot_rel_killed = hot_rel\<lparr>rd_pages := [hot_page_killed],
     rd_vm := (rd_vm hot_rel)(0 := 0),
     rd_log := [ReadBuffer 0, VisibilitymapPin 0, MarkBufferDirty 0, LogNewpageBuffer 0,
                LogNewpageVm 0]\<rparr>"

declare follow_redirections.simps [code]

declare group_loop.simps [code]

section \<open>Properties\<close>

lemmas example_defs =
  hot_rel_def hot_page_def htab_htup_def unused_slot_def tid_0_1_def tid_0_2_def tid_3_1_def
  tid_0_3_def hot_rel_frozen_def hot_page_frozen_def hot_rel_killed_def hot_page_killed_def

lemmas constant_defs =
  LP_UNUSED_def LP_NORMAL_def LP_REDIRECT_def LP_DEAD_def PD_ALL_VISIBLE_def
  VISIBILITYMAP_ALL_VISIBLE_def HEAP_XMIN_FROZEN_def HEAP_XMAX_INVALID_def HEAP_MOVED_OFF_def
  HEAP_MOVED_IN_def HEAP_MOVED_def HEAP_XACT_MASK_def HEAP_HOT_UPDATED_def HEAP_KEYS_UPDATED_def
  RELKIND_RELATION_def RELKIND_MATVIEW_def RELKIND_TOASTVALUE_def InvalidTransactionId_def
  FrozenTransactionId_def InvalidBlockNumber_def

lemmas model_defs =
  heap_force_page_def begin_page_def end_page_def heap_force_item_def force_kill_item_def
  force_freeze_item_def force_freeze_htup_def PageGetItemId_def PageGetItem_def
  PageGetMaxOffsetNumber_def PageIsAllVisible_def PageClearAllVisible_def
  visibilitymap_clear_def RelationGetNumberOfBlocks_def ItemIdIsUsed_def ItemIdIsNormal_def
  ItemIdIsRedirected_def ItemIdIsDead_def ItemIdGetRedirect_def ItemIdSetDead_def
  sanity_check_relation_def sanity_check_tid_array_def tidcmp_def ItemPointerCompare_def

subsection \<open>The sort\<close>

lemma length_qsort_insert: "length (qsort_insert t ts) = Suc (length ts)"
  by (induction ts) auto

lemma length_qsort: "length (qsort ts) = length ts"
  by (induction ts) (auto simp: length_qsort_insert)

lemma set_qsort_insert: "set (qsort_insert t ts) = insert t (set ts)"
  by (induction ts) auto

lemma set_qsort: "set (qsort ts) = set ts"
  by (induction ts) (auto simp: set_qsort_insert)

lemma qsort_replicate: "qsort (replicate n t) = replicate n t"
proof (induction n)
  case 0
  then show ?case by simp
next
  case (Suc n)
  then show ?case by (cases n) (simp_all add: tidcmp_def ItemPointerCompare_def)
qed

lemma tid_le_iff:
  "tid_le a b \<longleftrightarrow> ip_blkid a < ip_blkid b \<or> (ip_blkid a = ip_blkid b \<and> ip_posid a \<le> ip_posid b)"
  by (auto simp: tid_le_def tidcmp_def ItemPointerCompare_def)

lemma tid_le_total: "tid_le a b \<or> tid_le b a"
  by (auto simp: tid_le_iff)

lemma tid_le_trans: "tid_le a b \<Longrightarrow> tid_le b c \<Longrightarrow> tid_le a c"
  by (auto simp: tid_le_iff)

lemma sorted_qsort_insert:
  "sorted_wrt tid_le ts \<Longrightarrow> sorted_wrt tid_le (qsort_insert t ts)"
proof (induction ts)
  case Nil
  then show ?case by simp
next
  case (Cons u us)
  show ?case
  proof (cases "tidcmp t u \<le> 0")
    case True
    then have "tid_le t u" by (simp add: tid_le_def)
    then have "\<forall>x\<in>set (u # us). tid_le t x"
      using Cons.prems by (auto intro: tid_le_trans)
    then show ?thesis using True Cons.prems by simp
  next
    case False
    then have "tid_le u t" using tid_le_total[of t u] by (simp add: tid_le_def)
    then show ?thesis using False Cons by (auto simp: set_qsort_insert)
  qed
qed

lemma sorted_qsort: "sorted_wrt tid_le (qsort ts)"
  by (induction ts) (auto intro: sorted_qsort_insert)

subsection \<open>The cursor loop\<close>

lemma fetch_offnums_loop_run:
  assumes "start < i" "i \<le> length tids" "length offnos = length tids"
    and "take (i - start) offnos = map ip_posid (take (i - start) (drop start tids))"
  shows "fetch_offnums_loop tids start i b offnos = (j, b', offnos') \<Longrightarrow>
         j = i + length (takeWhile (\<lambda>u. ip_blkid u = b) (drop i tids)) \<and> b' = b \<and>
         length offnos' = length tids \<and>
         take (j - start) offnos' = map ip_posid (take (j - start) (drop start tids))"
  using assms
proof (induction tids start i b offnos rule: fetch_offnums_loop.induct)
  case (1 tids start i prev_blkno offnos)
  show ?case
  proof (cases "i < length tids \<and> prev_blkno = ip_blkid (tids ! i)")
    case True
    then have il: "i < length tids" and pb: "prev_blkno = ip_blkid (tids ! i)" by auto
    have d: "drop i tids = tids ! i # drop (Suc i) tids"
      using il by (simp add: Cons_nth_drop_Suc)
    have step: "fetch_offnums_loop tids start (Suc i) (ip_blkid (tids ! i))
                  (offnos[i - start := ip_posid (tids ! i)]) = (j, b', offnos')"
      using "1.prems"(1) il pb
      by (subst (asm) fetch_offnums_loop.simps) (simp add: Let_def)
    have tk: "take (Suc i - start) (offnos[i - start := ip_posid (tids ! i)]) =
              map ip_posid (take (Suc i - start) (drop start tids))"
    proof -
      have s: "Suc i - start = Suc (i - start)" using "1.prems"(2) by simp
      have l1: "i - start < length offnos" using il "1.prems" by simp
      have l2: "i - start < length (drop start tids)" using il "1.prems" by simp
      have n: "drop start tids ! (i - start) = tids ! i" using "1.prems" il by simp
      have a: "take (Suc (i - start)) (offnos[i - start := ip_posid (tids ! i)]) =
               take (i - start) offnos @ [ip_posid (tids ! i)]"
        using l1 by (simp add: take_Suc_conv_app_nth)
      have b: "take (Suc (i - start)) (drop start tids) =
               take (i - start) (drop start tids) @ [tids ! i]"
        using take_Suc_conv_app_nth[OF l2] n by simp
      show ?thesis
        unfolding s a b using "1.prems"(5) by simp
    qed
    have IH: "j = Suc i + length (takeWhile (\<lambda>u. ip_blkid u = ip_blkid (tids ! i)) (drop (Suc i) tids)) \<and>
       b' = ip_blkid (tids ! i) \<and> length offnos' = length tids \<and>
       take (j - start) offnos' = map ip_posid (take (j - start) (drop start tids))"
    proof (rule "1.IH"[OF il refl refl refl _ step])
      show "i = start \<or> prev_blkno = ip_blkid (tids ! i)" using pb by simp
      show "start < Suc i" using "1.prems" by simp
      show "Suc i \<le> length tids" using il by simp
      show "length (offnos[i - start := ip_posid (tids ! i)]) = length tids"
        using "1.prems" by simp
      show "take (Suc i - start) (offnos[i - start := ip_posid (tids ! i)]) =
            map ip_posid (take (Suc i - start) (drop start tids))" by (rule tk)
    qed
    then have j: "j = Suc i + length (takeWhile (\<lambda>u. ip_blkid u = ip_blkid (tids ! i)) (drop (Suc i) tids))"
      and rest: "b' = ip_blkid (tids ! i)" "length offnos' = length tids"
        "take (j - start) offnos' = map ip_posid (take (j - start) (drop start tids))"
      by blast+
    have "j = i + length (takeWhile (\<lambda>u. ip_blkid u = prev_blkno) (drop i tids))"
      unfolding j d pb by simp
    then show ?thesis using rest pb by blast
  next
    case False
    have "fetch_offnums_loop tids start i prev_blkno offnos = (i, prev_blkno, offnos)"
      using False "1.prems"(2) by (subst fetch_offnums_loop.simps) (auto simp: Let_def)
    then have r: "(j, b', offnos') = (i, prev_blkno, offnos)"
      using "1.prems"(1) by simp
    have "takeWhile (\<lambda>u. ip_blkid u = prev_blkno) (drop i tids) = []"
    proof (cases "i < length tids")
      case True
      with False have "ip_blkid (tids ! i) \<noteq> prev_blkno" by auto
      then show ?thesis using True by (simp add: Cons_nth_drop_Suc [symmetric])
    next
      case False
      then show ?thesis by simp
    qed
    then show ?thesis using r "1.prems" by simp
  qed
qed

lemma tids_same_page_fetch_offnums_run:
  assumes "unat next_start_ptr < length tids" "length offnos = length tids"
  shows "\<exists>offnos'. tids_same_page_fetch_offnums tids next_start_ptr offnos =
           (ip_blkid (tids ! unat next_start_ptr),
            of_nat (unat next_start_ptr + length (takeWhile (\<lambda>u. ip_blkid u = ip_blkid (tids ! unat next_start_ptr)) (drop (unat next_start_ptr) tids))),
            offnos') \<and> length offnos' = length tids \<and>
           take (length (takeWhile (\<lambda>u. ip_blkid u = ip_blkid (tids ! unat next_start_ptr)) (drop (unat next_start_ptr) tids))) offnos' =
             map ip_posid (takeWhile (\<lambda>u. ip_blkid u = ip_blkid (tids ! unat next_start_ptr)) (drop (unat next_start_ptr) tids))"
proof -
  define st where "st = unat next_start_ptr"
  define b where "b = ip_blkid (tids ! st)"
  define offnos1 where "offnos1 = offnos[0 := ip_posid (tids ! st)]"
  obtain j b' offnos' where f: "fetch_offnums_loop tids st (Suc st) b offnos1 = (j, b', offnos')"
    by (cases "fetch_offnums_loop tids st (Suc st) b offnos1") auto
  have first: "fetch_offnums_loop tids st st InvalidBlockNumber offnos = (j, b', offnos')"
    using assms f by (subst fetch_offnums_loop.simps) (simp add: st_def b_def offnos1_def Let_def)
  have d: "drop st tids = tids ! st # drop (Suc st) tids"
    using assms by (simp add: Cons_nth_drop_Suc st_def)
  have tk: "take (Suc st - st) offnos1 = map ip_posid (take (Suc st - st) (drop st tids))"
    using assms by (cases offnos) (auto simp: offnos1_def d)
  have r: "j = Suc st + length (takeWhile (\<lambda>u. ip_blkid u = b) (drop (Suc st) tids)) \<and> b' = b \<and>
         length offnos' = length tids \<and>
         take (j - st) offnos' = map ip_posid (take (j - st) (drop st tids))"
  proof (rule fetch_offnums_loop_run[OF _ _ _ tk f])
    show "st < Suc st" by simp
    show "Suc st \<le> length tids" using assms by (simp add: st_def)
    show "length offnos1 = length tids" using assms by (simp add: offnos1_def)
  qed
  have tw: "takeWhile (\<lambda>u. ip_blkid u = b) (drop st tids) = tids ! st # takeWhile (\<lambda>u. ip_blkid u = b) (drop (Suc st) tids)"
    by (subst d) (simp add: b_def)
  have jl: "j - st = length (takeWhile (\<lambda>u. ip_blkid u = b) (drop st tids))"
    using r tw by simp
  have "take (j - st) (drop st tids) = takeWhile (\<lambda>u. ip_blkid u = b) (drop st tids)"
    unfolding jl by (metis takeWhile_eq_take)
  then have tk': "take (length (takeWhile (\<lambda>u. ip_blkid u = b) (drop st tids))) offnos' =
      map ip_posid (takeWhile (\<lambda>u. ip_blkid u = b) (drop st tids))"
    using r jl by metis
  have j: "j = st + length (takeWhile (\<lambda>u. ip_blkid u = b) (drop st tids))"
    using r tw by simp
  have "tids_same_page_fetch_offnums tids next_start_ptr offnos = (b, of_nat j, offnos')"
    using first r by (simp add: tids_same_page_fetch_offnums_def st_def [symmetric])
  then show ?thesis
    using tk' r unfolding j st_def b_def by blast
qed

lemma page_runs_drop:
  assumes "st < length tids"
  shows "page_runs (drop st tids) =
     (ip_blkid (tids ! st), map ip_posid (takeWhile (\<lambda>u. ip_blkid u = ip_blkid (tids ! st)) (drop st tids))) #
     page_runs (drop (st + length (takeWhile (\<lambda>u. ip_blkid u = ip_blkid (tids ! st)) (drop st tids))) tids)"
proof -
  let ?P = "\<lambda>u. ip_blkid u = ip_blkid (tids ! st)"
  have d: "drop st tids = tids ! st # drop (Suc st) tids"
    using assms by (simp add: Cons_nth_drop_Suc)
  have "dropWhile ?P (drop (Suc st) tids) = drop (length (takeWhile ?P (drop (Suc st) tids))) (drop (Suc st) tids)"
    by (rule dropWhile_eq_drop)
  then show ?thesis
    by (subst d) (simp add: d add.commute)
qed

lemma run_length_le:
  assumes "st \<le> length tids"
  shows "st + length (takeWhile P (drop st tids)) \<le> length tids"
proof -
  have "length (takeWhile P (drop st tids)) \<le> length (drop st tids)"
    by (rule length_takeWhile_le)
  then show ?thesis using assms by simp
qed

lemma unat_of_nat16: "n \<le> 65535 \<Longrightarrow> unat (of_nat n :: OffsetNumber) = n"
  by (simp add: unat_of_nat)

lemma group_loop_runs:
  assumes "length tids \<le> 65535" "st < length tids" "length offnos = length tids"
  shows "group_loop visit tids (of_nat st) (of_nat st) offnos s =
         visit_groups visit (page_runs (drop st tids)) s"
  using assms
proof (induction "length tids - st" arbitrary: st offnos s rule: less_induct)
  case less
  let ?P = "\<lambda>u. ip_blkid u = ip_blkid (tids ! st)"
  define n where "n = length (takeWhile ?P (drop st tids))"
  have st16: "unat (of_nat st :: OffsetNumber) = st"
    using less.prems by (simp add: unat_of_nat16)
  have d: "drop st tids = tids ! st # drop (Suc st) tids"
    using less.prems by (simp add: Cons_nth_drop_Suc)
  have npos: "0 < n" unfolding n_def by (subst d) simp
  have nle: "st + n \<le> length tids"
    unfolding n_def using less.prems by (intro run_length_le) simp
  have n16: "unat (of_nat n :: OffsetNumber) = n"
    using nle less.prems by (simp add: unat_of_nat16)
  have j16: "unat (of_nat (st + n) :: OffsetNumber) = st + n"
    using nle less.prems(1) by (intro unat_of_nat16) simp
  obtain offnos' where f: "tids_same_page_fetch_offnums tids (of_nat st) offnos =
        (ip_blkid (tids ! st), of_nat (st + n), offnos')"
      and l': "length offnos' = length tids"
      and t': "take n offnos' = map ip_posid (takeWhile ?P (drop st tids))"
    using tids_same_page_fetch_offnums_run[of "of_nat st" tids offnos] less.prems
    unfolding st16 n_def by blast
  have noffs: "(of_nat (st + n) :: OffsetNumber) - of_nat st = of_nat n" by simp
  have runs: "page_runs (drop st tids) =
      (ip_blkid (tids ! st), take n offnos') # page_runs (drop (st + n) tids)"
    using page_runs_drop[OF less.prems(2)] unfolding n_def[symmetric] t' by simp
  have step: "group_loop visit tids (of_nat st) (of_nat st) offnos s =
      Option.bind (visit (ip_blkid (tids ! st)) (take n offnos') s) (\<lambda>r.
        case r of
          Inl e \<Rightarrow> Some (Inl e)
        | Inr s' \<Rightarrow>
            if st + n \<noteq> length tids
            then group_loop visit tids (of_nat (st + n)) (of_nat (st + n)) offnos' s'
            else Some (Inr s'))"
    by (subst group_loop.simps) (simp only: f prod.case Let_def noffs n16 j16)
  show ?case
  proof (cases "st + n = length tids")
    case True
    then have e: "page_runs (drop (st + n) tids) = []" by simp
    show ?thesis
      unfolding runs step e using True
      by (cases "visit (ip_blkid (tids ! st)) (take n offnos') s")
         (simp_all split: sum.splits)
  next
    case False
    then have lt: "st + n < length tids" using nle by simp
    have IH: "\<And>s'. group_loop visit tids (of_nat (st + n)) (of_nat (st + n)) offnos' s' =
        visit_groups visit (page_runs (drop (st + n) tids)) s'"
      using less.hyps[of "st + n" offnos'] less.prems(1) lt l' npos by simp
    show ?thesis
      unfolding runs step using False
      by (cases "visit (ip_blkid (tids ! st)) (take n offnos') s")
         (simp_all add: IH split: sum.splits del: of_nat_add)
  qed
qed

lemma group_loop_diverges_aux:
  assumes "group_loop visit tids c n offnos s = Some r"
  shows "65535 < length tids \<longrightarrow> (\<exists>e. r = Inl e)"
proof (rule group_loop.raw_induct[where P = "\<lambda>visit tids c n offnos s r.
         65535 < length tids \<longrightarrow> (\<exists>e. r = Inl e)", OF _ assms])
  fix gl and visit :: "BlockNumber \<Rightarrow> OffsetNumber list \<Rightarrow> 'a \<Rightarrow> (stop + 'a) option"
    and tids c n offnos s r
  assume 1: "\<And>visit tids c n offnos s r. gl visit tids c n offnos s = Some r \<Longrightarrow>
               65535 < length tids \<longrightarrow> (\<exists>e. r = Inl e)"
    "(case tids_same_page_fetch_offnums tids n offnos of
        (blkno, next_start_ptr', offnos') \<Rightarrow>
          let noffs = next_start_ptr' - c; curr_start_ptr' = next_start_ptr'
          in Option.bind (visit blkno (take (unat noffs) offnos') s)
               (\<lambda>r. case r of Inl e \<Rightarrow> Some (Inl e)
                    | Inr s' \<Rightarrow>
                        if unat next_start_ptr' \<noteq> length tids
                        then gl visit tids curr_start_ptr' next_start_ptr' offnos' s'
                        else Some (Inr s'))) = Some r"
  show "65535 < length tids \<longrightarrow> (\<exists>e. r = Inl e)"
  proof
    assume big: "65535 < length tids"
    obtain blkno n' offnos' where f: "tids_same_page_fetch_offnums tids n offnos = (blkno, n', offnos')"
      by (cases "tids_same_page_fetch_offnums tids n offnos") auto
    have "unat n' < 65536" using unsigned_less[of n', where 'a = nat] by simp
    then have ne: "unat n' \<noteq> length tids" using big by simp
    show "\<exists>e. r = Inl e"
      using 1 big
      by (auto simp: f ne Let_def split: bind_splits sum.splits)
  qed
qed

lemma group_loop_diverges:
  assumes "65535 < length tids" "group_loop visit tids c n offnos s = Some r"
  shows "\<exists>e. r = Inl e"
  using group_loop_diverges_aux[OF assms(2)] assms(1) by simp

lemma visit_groups_record: "visit_groups record_group gs' gs = Some (Inr (gs @ gs'))"
  by (induction gs' arbitrary: gs) (auto simp: record_group_def)

lemma group_loop_record_Inr:
  assumes "group_loop visit tids c n offnos s = Some r"
  shows "visit = record_group \<longrightarrow> (\<exists>gs. r = Inr gs)"
proof (rule group_loop.raw_induct[where P = "\<lambda>visit tids c n offnos s r.
         visit = record_group \<longrightarrow> (\<exists>gs. r = Inr gs)", OF _ assms])
  fix gl and visit :: "BlockNumber \<Rightarrow> OffsetNumber list \<Rightarrow> (BlockNumber \<times> OffsetNumber list) list
      \<Rightarrow> (stop + (BlockNumber \<times> OffsetNumber list) list) option"
    and tids c n offnos s r
  assume 1: "\<And>visit tids c n offnos s r. gl visit tids c n offnos s = Some r \<Longrightarrow>
               visit = record_group \<longrightarrow> (\<exists>gs. r = Inr gs)"
    "(case tids_same_page_fetch_offnums tids n offnos of
        (blkno, next_start_ptr', offnos') \<Rightarrow>
          let noffs = next_start_ptr' - c; curr_start_ptr' = next_start_ptr'
          in Option.bind (visit blkno (take (unat noffs) offnos') s)
               (\<lambda>r. case r of Inl e \<Rightarrow> Some (Inl e)
                    | Inr s' \<Rightarrow>
                        if unat next_start_ptr' \<noteq> length tids
                        then gl visit tids curr_start_ptr' next_start_ptr' offnos' s'
                        else Some (Inr s'))) = Some r"
  show "visit = record_group \<longrightarrow> (\<exists>gs. r = Inr gs)"
  proof
    assume v: "visit = record_group"
    obtain blkno n' offnos' where f: "tids_same_page_fetch_offnums tids n offnos = (blkno, n', offnos')"
      by (cases "tids_same_page_fetch_offnums tids n offnos") auto
    show "\<exists>gs. r = Inr gs"
      using 1 v
      by (auto simp: f Let_def record_group_def split: bind_splits sum.splits if_splits)
  qed
qed

lemma page_groups_diverges: "65535 < length tids \<Longrightarrow> page_groups tids = None"
proof (rule ccontr)
  assume big: "65535 < length tids" and "page_groups tids \<noteq> None"
  then obtain r where r: "page_groups tids = Some r" by auto
  then obtain e where "r = Inl e"
    using group_loop_diverges[OF big, of record_group 0 0 "replicate (length tids) 0" "[]" r]
    unfolding page_groups_def by blast
  moreover obtain gs where "r = Inr gs"
    using group_loop_record_Inr[of record_group tids 0 0 "replicate (length tids) 0" "[]" r] r
    unfolding page_groups_def by blast
  ultimately show False by simp
qed

lemma concat_page_runs: "concat (map group_tids (page_runs tids)) = tids"
proof (induction tids rule: page_runs.induct)
  case 1
  then show ?case by simp
next
  case (2 t ts)
  have "map (\<lambda>offno. \<lparr>ip_blkid = ip_blkid t, ip_posid = offno\<rparr>)
          (map ip_posid (takeWhile (\<lambda>u. ip_blkid u = ip_blkid t) ts)) =
        takeWhile (\<lambda>u. ip_blkid u = ip_blkid t) ts"
    by (induction ts) auto
  then show ?case using 2 by (simp add: group_tids_def)
qed

lemma page_groups_runs:
  assumes "tids \<noteq> []" "length tids \<le> 65535"
  shows "page_groups tids = Some (Inr (page_runs tids))"
  using group_loop_runs[of tids 0 "replicate (length tids) 0" record_group "[]"] assms
  by (simp add: page_groups_def visit_groups_record)

lemma page_runs_blocks: "fst ` set (page_runs tids) = ip_blkid ` set tids"
proof (induction tids rule: page_runs.induct)
  case 1
  then show ?case by simp
next
  case (2 t ts)
  let ?P = "\<lambda>u. ip_blkid u = ip_blkid t"
  have "set ts = set (takeWhile ?P ts) \<union> set (dropWhile ?P ts)"
    by (metis set_append takeWhile_dropWhile_id)
  moreover have "ip_blkid ` set (takeWhile ?P ts) \<subseteq> {ip_blkid t}"
    by (auto dest: set_takeWhileD)
  ultimately show ?case using 2 by auto
qed

lemma page_runs_sorted:
  assumes "sorted_wrt tid_le tids"
  shows "sorted_wrt (<) (map fst (page_runs tids)) \<and>
         (\<forall>g\<in>set (page_runs tids). sorted_wrt (\<le>) (snd g))"
  using assms
proof (induction tids rule: page_runs.induct)
  case 1
  then show ?case by simp
next
  case (2 t ts)
  let ?P = "\<lambda>u. ip_blkid u = ip_blkid t"
  have ts: "sorted_wrt tid_le ts" and tle: "\<forall>u\<in>set ts. tid_le t u" using "2.prems" by simp_all
  have "sorted_wrt tid_le (takeWhile ?P ts @ dropWhile ?P ts)" using ts by simp
  from this[unfolded sorted_wrt_append]
  have sd: "sorted_wrt tid_le (dropWhile ?P ts)" and st: "sorted_wrt tid_le (takeWhile ?P ts)"
    by blast+
  have IH: "sorted_wrt (<) (map fst (page_runs (dropWhile ?P ts)))"
    "\<forall>g\<in>set (page_runs (dropWhile ?P ts)). sorted_wrt (\<le>) (snd g)"
    using "2.IH"[OF sd] by simp_all
  have gt: "ip_blkid t < b" if "b \<in> fst ` set (page_runs (dropWhile ?P ts))" for b
  proof -
    have "b \<in> ip_blkid ` set (dropWhile ?P ts)" using that by (simp only: page_runs_blocks)
    then obtain u where u: "u \<in> set (dropWhile ?P ts)" "b = ip_blkid u" by blast
    obtain v vs where v: "dropWhile ?P ts = v # vs" using u(1) by (cases "dropWhile ?P ts") auto
    have "\<not> ?P (hd (dropWhile ?P ts))" by (rule hd_dropWhile) (simp add: v)
    then have "ip_blkid v \<noteq> ip_blkid t" by (simp add: v)
    moreover have "v \<in> set (dropWhile ?P ts)" by (simp add: v)
    then have "v \<in> set ts" by (rule set_dropWhileD)
    ultimately have lt: "ip_blkid t < ip_blkid v" using tle by (auto simp: tid_le_iff)
    have "u = v \<or> tid_le v u" using sd u(1) unfolding v by auto
    then show ?thesis using lt u(2) by (auto simp: tid_le_iff)
  qed
  have offs: "sorted_wrt (\<le>) (map ip_posid (t # takeWhile ?P ts))"
  proof -
    have same: "ip_blkid u = ip_blkid t" if "u \<in> set (takeWhile ?P ts)" for u
      using set_takeWhileD[OF that] by simp
    have mem: "u \<in> set ts" if "u \<in> set (takeWhile ?P ts)" for u
      using set_takeWhileD[OF that] by simp
    have "sorted_wrt (\<lambda>a b. ip_posid a \<le> ip_posid b) (takeWhile ?P ts)"
    proof (rule sorted_wrt_mono_rel[OF _ st])
      fix a b assume "a \<in> set (takeWhile ?P ts)" "b \<in> set (takeWhile ?P ts)" "tid_le a b"
      then show "ip_posid a \<le> ip_posid b" using same[of a] same[of b] by (simp add: tid_le_iff)
    qed
    moreover have "ip_posid t \<le> ip_posid u" if "u \<in> set (takeWhile ?P ts)" for u
      using bspec[OF tle mem[OF that]] same[OF that] by (simp add: tid_le_iff)
    ultimately have "sorted_wrt (\<lambda>a b. ip_posid a \<le> ip_posid b) (t # takeWhile ?P ts)"
      by simp
    then show ?thesis by (simp only: sorted_wrt_map)
  qed
  have a: "\<forall>b\<in>set (map fst (page_runs (dropWhile ?P ts))). ip_blkid t < b"
    using gt by simp
  have m: "map fst (page_runs (t # ts)) = ip_blkid t # map fst (page_runs (dropWhile ?P ts))"
    by simp
  have s1: "sorted_wrt (<) (map fst (page_runs (t # ts)))"
    unfolding m using IH(1) a by simp
  have s2: "\<forall>g\<in>set (page_runs (t # ts)). sorted_wrt (\<le>) (snd g)"
    using IH(2) offs by simp
  show ?case using s1 s2 by (rule conjI)
qed

lemma wrap_fetch:
  "\<exists>offnos'. tids_same_page_fetch_offnums (replicate 65536 tid_0_1) 0 (replicate 65536 0) =
     (0, 0, offnos')"
  using tids_same_page_fetch_offnums_run[of 0 "replicate 65536 tid_0_1" "replicate 65536 0"]
  by (auto simp: tid_0_1_def)

subsection \<open>The redirect loop\<close>

lemma follow_bounded_0:
  "follow_bounded 0 page p = (if ItemIdIsRedirected (item_at page p) then None else Some p)"
  by simp

lemma follow_bounded_Suc:
  "follow_bounded (Suc m) page p =
     (if ItemIdIsRedirected (item_at page p)
      then follow_bounded m page (PageGetItemId page (ItemIdGetRedirect (item_at page p)))
      else Some p)"
  by (simp add: Let_def)

declare follow_bounded.simps [simp del]

lemma follow_bounded_sound:
  "follow_bounded n page p = Some r \<Longrightarrow> follow_redirections page p = Some r"
proof (induction n arbitrary: p)
  case 0
  then show ?case
    by (subst follow_redirections.simps) (simp add: follow_bounded_0 split: if_splits)
next
  case (Suc n)
  then show ?case
    by (subst follow_redirections.simps)
       (auto simp: follow_bounded_Suc Let_def split: if_splits)
qed

lemma follow_redirections_fuel:
  assumes "follow_redirections page p = Some r"
  shows "\<exists>n. follow_bounded n page p = Some r"
proof (rule follow_redirections.raw_induct[where P = "\<lambda>page p r. \<exists>n. follow_bounded n page p = Some r", OF _ assms])
  fix fr page p r
  assume IH: "\<And>page p r. fr page p = Some r \<Longrightarrow> \<exists>n. follow_bounded n page p = Some r"
    and st: "(if ItemIdIsRedirected (item_at page p)
          then let offno = ItemIdGetRedirect (item_at page p)
               in fr page (PageGetItemId page offno)
          else Some p) = Some r"
  show "\<exists>n. follow_bounded n page p = Some r"
  proof (cases "ItemIdIsRedirected (item_at page p)")
    case False
    then have "follow_bounded 0 page p = Some r" using st by (simp add: follow_bounded_0)
    then show ?thesis ..
  next
    case True
    then have "fr page (PageGetItemId page (ItemIdGetRedirect (item_at page p))) = Some r"
      using st by (simp add: Let_def)
    then obtain n
      where "follow_bounded n page (PageGetItemId page (ItemIdGetRedirect (item_at page p))) = Some r"
      using IH by blast
    then have "follow_bounded (Suc n) page p = Some r"
      using True by (simp add: follow_bounded_Suc)
    then show ?thesis ..
  qed
qed




lemma valid_PageGetItemId: "valid_itemid page (PageGetItemId page offno)"
proof (cases "offno = 0 \<or> length (pd_linp page) < unat offno")
  case True
  then show ?thesis by (auto simp: PageGetItemId_def)
next
  case False
  then have "0 < unat offno" "unat offno \<le> length (pd_linp page)" by (simp_all add: unat_gt_0)
  then show ?thesis using False by (simp add: PageGetItemId_def)
qed

lemma follow_bounded_result:
  "follow_bounded n page p = Some q \<Longrightarrow> valid_itemid page p \<Longrightarrow>
     valid_itemid page q \<and> \<not> ItemIdIsRedirected (item_at page q)"
proof (induction n arbitrary: p)
  case 0
  then show ?case by (auto simp: follow_bounded_0 split: if_splits)
next
  case (Suc n)
  show ?case
  proof (cases "ItemIdIsRedirected (item_at page p)")
    case True
    then have "follow_bounded n page (PageGetItemId page (ItemIdGetRedirect (item_at page p))) = Some q"
      using Suc.prems(1) by (simp add: follow_bounded_Suc)
    then show ?thesis using valid_PageGetItemId by (rule Suc.IH)
  next
    case False
    then show ?thesis using Suc.prems by (simp add: follow_bounded_Suc)
  qed
qed

lemma follow_redirections_result:
  assumes "follow_redirections page p = Some q" "valid_itemid page p"
  shows "valid_itemid page q \<and> \<not> ItemIdIsRedirected (item_at page q)"
proof -
  obtain n where "follow_bounded n page p = Some q"
    using follow_redirections_fuel[OF assms(1)] by blast
  then show ?thesis using assms(2) by (rule follow_bounded_result)
qed

text \<open>Writes through an address, and pages with the same redirects.\<close>

lemma item_at_item_set:
  "valid_itemid page p \<Longrightarrow> item_at (item_set page p v) q = (if q = p then v else item_at page q)"
  by (cases p; cases q) auto

lemma item_set_frame:
  "length (pd_linp (item_set page p v)) = length (pd_linp page)"
  "pd_flags (item_set page p v) = pd_flags page"
  "pd_items (item_set page p v) = pd_items page"
  by (cases p; simp)+

lemma valid_itemid_cong:
  "length (pd_linp page') = length (pd_linp page) \<Longrightarrow> valid_itemid page' p = valid_itemid page p"
  by (cases p) auto

lemma same_redirects_refl: "same_redirects page page"
  by (simp add: same_redirects_def)

lemma same_redirects_trans:
  "same_redirects a b \<Longrightarrow> same_redirects b c \<Longrightarrow> same_redirects a c"
  unfolding same_redirects_def by simp

lemma same_redirects_length:
  "same_redirects page page' \<Longrightarrow> length (pd_linp page') = length (pd_linp page)"
  by (simp add: same_redirects_def)

lemma same_redirects_PageGetItemId:
  "same_redirects page page' \<Longrightarrow> PageGetItemId page' offno = PageGetItemId page offno"
  by (simp add: same_redirects_def PageGetItemId_def)

lemma same_redirects_max:
  "same_redirects page page' \<Longrightarrow> PageGetMaxOffsetNumber page' = PageGetMaxOffsetNumber page"
  by (simp add: same_redirects_def PageGetMaxOffsetNumber_def)

lemma same_redirects_item_set:
  assumes "valid_itemid page p" "\<not> ItemIdIsRedirected (item_at page p)" "\<not> ItemIdIsRedirected v"
  shows "same_redirects page (item_set page p v)"
  unfolding same_redirects_def using assms by (simp add: item_set_frame item_at_item_set)

lemma follow_bounded_same:
  assumes "same_redirects page page'"
  shows "follow_bounded n page' p = follow_bounded n page p"
proof (induction n arbitrary: p)
  case 0
  then show ?case using assms by (simp add: follow_bounded_0 same_redirects_def)
next
  case (Suc n)
  have r: "ItemIdIsRedirected (item_at page' p) = ItemIdIsRedirected (item_at page p)"
    using assms by (simp add: same_redirects_def)
  show ?case
  proof (cases "ItemIdIsRedirected (item_at page p)")
    case True
    then have "ItemIdGetRedirect (item_at page' p) = ItemIdGetRedirect (item_at page p)"
      using assms by (simp add: same_redirects_def)
    then show ?thesis
      using True r Suc.IH same_redirects_PageGetItemId[OF assms]
      by (simp add: follow_bounded_Suc)
  next
    case False
    then show ?thesis using r by (simp add: follow_bounded_Suc)
  qed
qed

lemma follow_redirections_same:
  assumes "same_redirects page page'"
  shows "follow_redirections page' p = follow_redirections page p"
proof (cases "follow_redirections page p")
  case (Some r)
  then obtain n where "follow_bounded n page p = Some r"
    using follow_redirections_fuel by blast
  then have "follow_bounded n page' p = Some r" by (simp add: follow_bounded_same[OF assms])
  then show ?thesis using Some by (simp add: follow_bounded_sound)
next
  case None
  show ?thesis
  proof (cases "follow_redirections page' p")
    case (Some r)
    then obtain n where "follow_bounded n page' p = Some r"
      using follow_redirections_fuel by blast
    then have "follow_bounded n page p = Some r" by (simp add: follow_bounded_same[OF assms])
    then have "follow_redirections page p = Some r" by (rule follow_bounded_sound)
    then show ?thesis using None by simp
  next
    case n: None
    then show ?thesis using None by simp
  qed
qed







lemma cycle_page_follow_bounded:
  "follow_bounded n cycle_page (Slot 0) = None \<and> follow_bounded n cycle_page (Slot (Suc 0)) = None"
  by (induction n)
     (simp_all add: follow_bounded_0 follow_bounded_Suc cycle_page_def ItemIdIsRedirected_def
        LP_REDIRECT_def ItemIdGetRedirect_def PageGetItemId_def)

lemma cycle_page_diverges: "follow_redirections cycle_page (PageGetItemId cycle_page 1) = None"
proof (cases "follow_redirections cycle_page (PageGetItemId cycle_page 1)")
  case None
  then show ?thesis .
next
  case (Some r)
  have "PageGetItemId cycle_page 1 = Slot 0" by (simp add: PageGetItemId_def cycle_page_def)
  then obtain n where "follow_bounded n cycle_page (Slot 0) = Some r"
    using follow_redirections_fuel Some by fastforce
  then show ?thesis using cycle_page_follow_bounded[of n] by simp
qed

lemma hot_follow_3: "follow_redirections hot_page (Slot 2) = Some (Slot 2)"
  by code_simp

lemma hot_follow_1: "follow_redirections hot_page (Slot 0) = Some (Slot 1)"
  by code_simp

lemma hot_follow_2: "follow_redirections hot_page (Slot 1) = Some (Slot 1)"
  by code_simp

lemma stray_follow: "follow_redirections stray_page (Slot 0) = Some (Outside 3)"
  by code_simp


subsection \<open>One targeted row\<close>



lemma lp_flags_cases:
  fixes x :: "2 word"
  shows "x = 0 \<or> x = 1 \<or> x = 2 \<or> x = 3"
proof -
  have "unat x < 4" using unsigned_less[of x, where 'a = nat] by simp
  then have "unat x = 0 \<or> unat x = 1 \<or> unat x = 2 \<or> unat x = 3" by arith
  then show ?thesis by (auto simp: word_unat_eq_iff)
qed

lemma ItemIdIsNormal_iff:
  "ItemIdIsNormal itemId \<longleftrightarrow>
     ItemIdIsUsed itemId \<and> \<not> ItemIdIsDead itemId \<and> \<not> ItemIdIsRedirected itemId"
  using lp_flags_cases[of "lp_flags itemId"]
  by (auto simp: ItemIdIsNormal_def ItemIdIsUsed_def ItemIdIsDead_def ItemIdIsRedirected_def
      LP_UNUSED_def LP_NORMAL_def LP_REDIRECT_def LP_DEAD_def)

lemma force_freeze_htup_fields:
  "t_xmin (force_freeze_htup blkno offno htup) = FrozenTransactionId"
  "t_xmax (force_freeze_htup blkno offno htup) = InvalidTransactionId"
  "t_ctid (force_freeze_htup blkno offno htup) = \<lparr>ip_blkid = blkno, ip_posid = offno\<rparr>"
  "t_infomask (force_freeze_htup blkno offno htup) =
     (t_infomask htup AND NOT HEAP_XACT_MASK) OR (HEAP_XMIN_FROZEN OR HEAP_XMAX_INVALID)"
  "t_infomask2 (force_freeze_htup blkno offno htup) =
     (t_infomask2 htup AND NOT HEAP_HOT_UPDATED) AND NOT HEAP_KEYS_UPDATED"
  by (simp_all add: force_freeze_htup_def Let_def)

lemma mask_replace:
  fixes m :: "16 word"
  assumes "F AND M = F"
  shows "((m AND NOT M) OR F) AND M = F" and "((m AND NOT M) OR F) AND NOT M = m AND NOT M"
proof -
  show "((m AND NOT M) OR F) AND M = F"
    using assms by (simp add: word_ao_dist and.assoc)
  have "F AND NOT M = (F AND M) AND NOT M" using assms by simp
  also have "\<dots> = 0" by (simp add: and.assoc)
  finally have z: "F AND NOT M = 0" .
  show "((m AND NOT M) OR F) AND NOT M = m AND NOT M"
    by (simp add: word_ao_dist and.assoc z)
qed

lemma frozen_bits_in_mask:
  "(HEAP_XMIN_FROZEN OR HEAP_XMAX_INVALID) AND HEAP_XACT_MASK = HEAP_XMIN_FROZEN OR HEAP_XMAX_INVALID"
  by (simp add: HEAP_XACT_MASK_def HEAP_XMIN_FROZEN_def HEAP_XMAX_INVALID_def)

lemma clear_two_bits:
  fixes m :: "16 word"
  shows "((m AND NOT a) AND NOT b) AND (a OR b) = 0"
  by (simp add: bit_eq_iff bit_simps) blast

lemma clear_all_visible_bit:
  fixes v :: "8 word"
  shows "(v AND NOT VISIBILITYMAP_ALL_VISIBLE) AND VISIBILITYMAP_ALL_VISIBLE = 0"
  by (simp add: and.assoc)

lemma ItemIdSetDead_dead: "ItemIdIsDead (ItemIdSetDead itemId)" "\<not> ItemIdIsRedirected (ItemIdSetDead itemId)"
  by (simp_all add: ItemIdSetDead_def ItemIdIsDead_def ItemIdIsRedirected_def LP_DEAD_def LP_REDIRECT_def)

lemma PageClearAllVisible_simps:
  "\<not> PageIsAllVisible (PageClearAllVisible page)"
  "pd_linp (PageClearAllVisible page) = pd_linp page"
  "pd_items (PageClearAllVisible page) = pd_items page"
  "pd_outside (PageClearAllVisible page) = pd_outside page"
  by (simp_all add: PageClearAllVisible_def PageIsAllVisible_def and.assoc)

lemma item_at_PageClearAllVisible: "item_at (PageClearAllVisible page) p = item_at page p"
  by (cases p) (simp_all add: PageClearAllVisible_simps)

lemma PageIsAllVisible_item_set:
  "PageIsAllVisible (item_set page p v) = PageIsAllVisible page"
  by (simp add: PageIsAllVisible_def item_set_frame)

lemma force_kill_item_page:
  "item_at (s_page (force_kill_item blkno itemid s)) p =
     item_at (item_set (s_page s) itemid (ItemIdSetDead (item_at (s_page s) itemid))) p"
  "length (pd_linp (s_page (force_kill_item blkno itemid s))) = length (pd_linp (s_page s))"
  "pd_items (s_page (force_kill_item blkno itemid s)) = pd_items (s_page s)"
  "\<not> PageIsAllVisible (s_page (force_kill_item blkno itemid s))"
  by (simp_all add: force_kill_item_def Let_def item_at_PageClearAllVisible
        PageClearAllVisible_simps item_set_frame)

lemma force_kill_item_same_redirects:
  assumes "valid_itemid (s_page s) itemid" "ItemIdIsNormal (item_at (s_page s) itemid)"
  shows "same_redirects (s_page s) (s_page (force_kill_item blkno itemid s))"
proof -
  have nr: "\<not> ItemIdIsRedirected (item_at (s_page s) itemid)"
    using assms(2) by (simp add: ItemIdIsNormal_iff)
  have "same_redirects (s_page s)
          (item_set (s_page s) itemid (ItemIdSetDead (item_at (s_page s) itemid)))"
    using assms(1) nr ItemIdSetDead_dead(2) by (rule same_redirects_item_set)
  then show ?thesis
    unfolding same_redirects_def by (simp add: force_kill_item_page)
qed

lemma force_freeze_item_page:
  "pd_linp (s_page (force_freeze_item blkno offno itemid s)) = pd_linp (s_page s)"
  "pd_outside (s_page (force_freeze_item blkno offno itemid s)) = pd_outside (s_page s)"
  "pd_flags (s_page (force_freeze_item blkno offno itemid s)) = pd_flags (s_page s)"
  "pd_items (s_page (force_freeze_item blkno offno itemid s)) =
     (pd_items (s_page s))(lp_off (item_at (s_page s) itemid) :=
        force_freeze_htup blkno offno (pd_items (s_page s) (lp_off (item_at (s_page s) itemid))))"
  by (simp_all add: force_freeze_item_def Let_def PageGetItem_def)

lemma item_at_linp_outside:
  "pd_linp page' = pd_linp page \<Longrightarrow> pd_outside page' = pd_outside page \<Longrightarrow>
     item_at page' p = item_at page p"
  by (cases p) simp_all



lemma heap_force_item_freeze:
  assumes "offno \<noteq> 0" "offno \<le> maxoffset"
    and "follow_redirections (s_page s) (PageGetItemId (s_page s) offno) = Some itemid"
    and "ItemIdIsNormal (item_at (s_page s) itemid)"
  shows "heap_force_item HEAP_FORCE_FREEZE blkno maxoffset offno s =
           Some (Inr (force_freeze_item blkno offno itemid (s\<lparr>did_modify_page := True\<rparr>)))"
  using assms
  by (simp add: heap_force_item_def Let_def not_less [symmetric] ItemIdIsNormal_iff)

lemma heap_force_item_never_raises:
  "heap_force_item heap_force_opt blkno maxoffset offno s \<noteq> Some (Inl e)"
  by (auto simp: heap_force_item_def Let_def split: bind_splits if_splits)

lemma heap_force_item_total:
  assumes "offno = 0 \<or> maxoffset < offno \<or>
           follow_redirections (s_page s) (PageGetItemId (s_page s) offno) \<noteq> None"
  shows "\<exists>s'. heap_force_item heap_force_opt blkno maxoffset offno s = Some (Inr s')"
proof (cases "offno = 0 \<or> maxoffset < offno")
  case True
  then show ?thesis by (simp add: heap_force_item_def)
next
  case False
  then obtain itemid
    where "follow_redirections (s_page s) (PageGetItemId (s_page s) offno) = Some itemid"
    using assms by auto
  then show ?thesis using False by (simp add: heap_force_item_def Let_def)
qed

lemma heap_force_item_cases:
  assumes "heap_force_item heap_force_opt blkno maxoffset offno s = Some (Inr s')"
  obtains
    (skip) n where "s' = s\<lparr>s_log := s_log s @ [Notice n]\<rparr>"
      "n = OffsetOutOfRange blkno offno \<or> n = AlreadyUnused blkno offno \<or> n = AlreadyDead blkno offno"
  | (kill) itemid where "heap_force_opt = HEAP_FORCE_KILL"
      "s' = force_kill_item blkno itemid (s\<lparr>did_modify_page := True\<rparr>)"
      "valid_itemid (s_page s) itemid" "ItemIdIsNormal (item_at (s_page s) itemid)"
      "follow_redirections (s_page s) (PageGetItemId (s_page s) offno) = Some itemid"
      "offno \<noteq> 0" "offno \<le> maxoffset"
  | (freeze) itemid where "heap_force_opt = HEAP_FORCE_FREEZE"
      "s' = force_freeze_item blkno offno itemid (s\<lparr>did_modify_page := True\<rparr>)"
      "valid_itemid (s_page s) itemid" "ItemIdIsNormal (item_at (s_page s) itemid)"
      "follow_redirections (s_page s) (PageGetItemId (s_page s) offno) = Some itemid"
      "offno \<noteq> 0" "offno \<le> maxoffset"
proof (cases "offno = 0 \<or> maxoffset < offno")
  case True
  then have "s' = s\<lparr>s_log := s_log s @ [Notice (OffsetOutOfRange blkno offno)]\<rparr>"
    using assms by (simp add: heap_force_item_def)
  then show ?thesis using skip by blast
next
  case False
  then have rng: "offno \<noteq> 0" "offno \<le> maxoffset" by (simp_all add: not_less)
  obtain itemid
    where f: "follow_redirections (s_page s) (PageGetItemId (s_page s) offno) = Some itemid"
    using assms False by (auto simp: heap_force_item_def split: bind_splits)
  have l: "valid_itemid (s_page s) itemid"
    and nr: "\<not> ItemIdIsRedirected (item_at (s_page s) itemid)"
    using follow_redirections_result[OF f valid_PageGetItemId] by simp_all
  let ?it = "item_at (s_page s) itemid"
  show ?thesis
  proof (cases "\<not> ItemIdIsUsed ?it \<or> ItemIdIsDead ?it")
    case True
    then have "s' = s\<lparr>s_log := s_log s @ [Notice (AlreadyUnused blkno offno)]\<rparr> \<or>
               s' = s\<lparr>s_log := s_log s @ [Notice (AlreadyDead blkno offno)]\<rparr>"
      using assms False f by (auto simp: heap_force_item_def Let_def split: if_splits)
    then show ?thesis using skip by blast
  next
    case n: False
    then have normal: "ItemIdIsNormal ?it" using nr by (simp add: ItemIdIsNormal_iff)
    show ?thesis
    proof (cases heap_force_opt)
      case HEAP_FORCE_KILL
      then have "s' = force_kill_item blkno itemid (s\<lparr>did_modify_page := True\<rparr>)"
        using assms False f n by (auto simp: heap_force_item_def Let_def)
      then show ?thesis using kill HEAP_FORCE_KILL l normal f rng by blast
    next
      case HEAP_FORCE_FREEZE
      then have "s' = force_freeze_item blkno offno itemid (s\<lparr>did_modify_page := True\<rparr>)"
        using assms False f n by (auto simp: heap_force_item_def Let_def)
      then show ?thesis using freeze HEAP_FORCE_FREEZE l normal f rng by blast
    qed
  qed
qed


lemma heap_force_items_never_raises:
  "heap_force_items heap_force_opt blkno maxoffset offnos s \<noteq> Some (Inl e)"
proof (induction offnos arbitrary: s)
  case Nil
  then show ?case by simp
next
  case (Cons offno offnos)
  then show ?case
    using heap_force_item_never_raises
    by (auto split: bind_splits sum.splits)
qed

lemma heap_force_items_induct:
  assumes "heap_force_items heap_force_opt blkno maxoffset offnos s = Some (Inr s')"
    and "Q s"
    and "\<And>offno s s'. Q s \<Longrightarrow>
           heap_force_item heap_force_opt blkno maxoffset offno s = Some (Inr s') \<Longrightarrow> Q s'"
  shows "Q s'"
  using assms(1,2)
proof (induction offnos arbitrary: s)
  case Nil
  then show ?case by simp
next
  case (Cons offno offnos)
  then obtain s1 where 1: "heap_force_item heap_force_opt blkno maxoffset offno s = Some (Inr s1)"
    and 2: "heap_force_items heap_force_opt blkno maxoffset offnos s1 = Some (Inr s')"
    by (auto split: bind_splits sum.splits)
  have "Q s1" using assms(3)[OF Cons.prems(2) 1] .
  then show ?case using Cons.IH[OF 2] by simp
qed

subsection \<open>One page and the whole call\<close>

lemma unat_blkno_less:
  assumes "blkno < RelationGetNumberOfBlocks rel"
  shows "unat blkno < length (rd_pages rel)"
proof -
  have "unat blkno < unat (RelationGetNumberOfBlocks rel)"
    using assms by (simp add: word_less_nat_alt)
  also have "\<dots> \<le> length (rd_pages rel)"
    by (simp add: RelationGetNumberOfBlocks_def unat_of_nat)
  finally show ?thesis .
qed

lemma heap_force_page_visit:
  assumes "\<not> nblocks \<le> blkno"
    and "heap_force_items heap_force_opt blkno
           (PageGetMaxOffsetNumber (rd_pages rel ! unat blkno)) offnos
           (begin_page heap_force_opt blkno rel) = Some (Inr s)"
  shows "heap_force_page heap_force_opt nblocks blkno offnos rel = Some (Inr (end_page blkno rel s))"
proof -
  have "s_page (begin_page heap_force_opt blkno rel) = rd_pages rel ! unat blkno"
    by (simp add: begin_page_def Let_def)
  then show ?thesis using assms by (simp add: heap_force_page_def Let_def)
qed

lemma heap_force_page_cases:
  assumes "heap_force_page heap_force_opt nblocks blkno offnos rel = Some (Inr rel')"
  obtains
    (out_of_range) "nblocks \<le> blkno"
      "rel' = rel\<lparr>rd_log := rd_log rel @ [Notice (BlockOutOfRange blkno)]\<rparr>"
  | (visited) s where "\<not> nblocks \<le> blkno"
      "heap_force_items heap_force_opt blkno (PageGetMaxOffsetNumber (rd_pages rel ! unat blkno))
         offnos (begin_page heap_force_opt blkno rel) = Some (Inr s)"
      "rel' = end_page blkno rel s"
proof (cases "nblocks \<le> blkno")
  case True
  then show ?thesis using assms out_of_range by (simp add: heap_force_page_def)
next
  case False
  have "s_page (begin_page heap_force_opt blkno rel) = rd_pages rel ! unat blkno"
    by (simp add: begin_page_def Let_def)
  then show ?thesis
    using assms False visited
    by (auto simp: heap_force_page_def Let_def split: bind_splits sum.splits)
qed

lemma visit_groups_single:
  "visit_groups visit [(blkno, offnos)] s = visit blkno offnos s"
  by (cases "visit blkno offnos s") (auto split: sum.splits)

lemma visit_groups_induct:
  assumes "visit_groups visit gs s = Some (Inr s')"
    and "Q s"
    and "\<And>blkno offnos s s'. Q s \<Longrightarrow> visit blkno offnos s = Some (Inr s') \<Longrightarrow> Q s'"
  shows "Q s'"
  using assms(1,2)
proof (induction gs arbitrary: s)
  case Nil
  then show ?case by simp
next
  case (Cons g gs)
  obtain blkno offnos where g: "g = (blkno, offnos)" by (cases g)
  from Cons.prems(1) obtain s1 where 1: "visit blkno offnos s = Some (Inr s1)"
    and 2: "visit_groups visit gs s1 = Some (Inr s')"
    unfolding g by (auto split: bind_splits sum.splits)
  have "Q s1" using assms(3)[OF Cons.prems(2) 1] .
  then show ?case using Cons.IH[OF 2] by simp
qed

lemma heap_force_common_Inr:
  assumes "heap_force_common in_recovery heap_force_opt ta rel = Some (Inr rel')"
  shows "\<not> in_recovery \<and> None \<notin> set ta \<and> ta \<noteq> [] \<and> sanity_check_relation rel = Inr () \<and>
         visit_groups (heap_force_page heap_force_opt (RelationGetNumberOfBlocks rel))
           (page_runs (if 1 < length ta then qsort (map the ta) else map the ta)) rel = Some (Inr rel')"
proof -
  let ?tids = "if 1 < length ta then qsort (map the ta) else map the ta"
  let ?visit = "heap_force_page heap_force_opt (RelationGetNumberOfBlocks rel)"
  have v: "\<not> in_recovery" "None \<notin> set ta" "ta \<noteq> []" "sanity_check_relation rel = Inr ()"
    using assms
    by (auto simp: heap_force_common_def sanity_check_tid_array_def Let_def
        split: if_splits sum.splits)
  have loop: "group_loop ?visit ?tids 0 0 (replicate (length ta) 0) rel = Some (Inr rel')"
    using assms v
    by (auto simp: heap_force_common_def sanity_check_tid_array_def Let_def
        split: if_splits sum.splits)
  have len: "length ?tids = length ta" by (simp add: length_qsort)
  have "\<not> 65535 < length ?tids"
    using group_loop_diverges[OF _ loop] by auto
  then have le: "length ?tids \<le> 65535" by simp
  have "group_loop ?visit ?tids (of_nat 0) (of_nat 0) (replicate (length ta) 0) rel =
        visit_groups ?visit (page_runs (drop 0 ?tids)) rel"
    using le len v(3) by (intro group_loop_runs) auto
  then show ?thesis using loop v by simp
qed

lemma heap_force_common_single:
  assumes "\<not> in_recovery" "sanity_check_relation rel = Inr ()"
  shows "heap_force_common in_recovery heap_force_opt [Some tid] rel =
         heap_force_page heap_force_opt (RelationGetNumberOfBlocks rel) (ip_blkid tid) [ip_posid tid] rel"
proof -
  have "group_loop (heap_force_page heap_force_opt (RelationGetNumberOfBlocks rel)) [tid]
          (of_nat 0) (of_nat 0) (replicate 1 0) rel =
        visit_groups (heap_force_page heap_force_opt (RelationGetNumberOfBlocks rel))
          (page_runs (drop 0 [tid])) rel"
    by (intro group_loop_runs) auto
  moreover have "page_runs (drop 0 [tid]) = [(ip_blkid tid, [ip_posid tid])]" by simp
  ultimately have "group_loop (heap_force_page heap_force_opt (RelationGetNumberOfBlocks rel)) [tid]
          0 0 [0] rel =
        heap_force_page heap_force_opt (RelationGetNumberOfBlocks rel) (ip_blkid tid) [ip_posid tid] rel"
    by (simp only: visit_groups_single) simp
  then show ?thesis
    using assms
    by (simp add: heap_force_common_def sanity_check_tid_array_def)
qed

lemma heap_force_page_never_raises:
  "heap_force_page heap_force_opt nblocks blkno offnos rel \<noteq> Some (Inl e)"
  using heap_force_items_never_raises
  by (auto simp: heap_force_page_def Let_def split: bind_splits sum.splits)

lemma group_loop_never_raises_aux:
  assumes "group_loop visit tids c n offnos s = Some r"
  shows "(\<forall>b os t e. visit b os t \<noteq> Some (Inl e)) \<longrightarrow> (\<exists>s'. r = Inr s')"
proof (rule group_loop.raw_induct[where P = "\<lambda>visit tids c n offnos s r.
         (\<forall>b os t e. visit b os t \<noteq> Some (Inl e)) \<longrightarrow> (\<exists>s'. r = Inr s')", OF _ assms])
  fix gl and visit :: "BlockNumber \<Rightarrow> OffsetNumber list \<Rightarrow> 'a \<Rightarrow> (stop + 'a) option"
    and tids c n offnos s r
  assume 1: "\<And>visit tids c n offnos s r. gl visit tids c n offnos s = Some r \<Longrightarrow>
               (\<forall>b os t e. visit b os t \<noteq> Some (Inl e)) \<longrightarrow> (\<exists>s'. r = Inr s')"
    "(case tids_same_page_fetch_offnums tids n offnos of
        (blkno, next_start_ptr', offnos') \<Rightarrow>
          let noffs = next_start_ptr' - c; curr_start_ptr' = next_start_ptr'
          in Option.bind (visit blkno (take (unat noffs) offnos') s)
               (\<lambda>r. case r of Inl e \<Rightarrow> Some (Inl e)
                    | Inr s' \<Rightarrow>
                        if unat next_start_ptr' \<noteq> length tids
                        then gl visit tids curr_start_ptr' next_start_ptr' offnos' s'
                        else Some (Inr s'))) = Some r"
  show "(\<forall>b os t e. visit b os t \<noteq> Some (Inl e)) \<longrightarrow> (\<exists>s'. r = Inr s')"
  proof
    assume nr: "\<forall>b os t e. visit b os t \<noteq> Some (Inl e)"
    obtain blkno n' offnos' where f: "tids_same_page_fetch_offnums tids n offnos = (blkno, n', offnos')"
      by (cases "tids_same_page_fetch_offnums tids n offnos") auto
    obtain s1 where v: "visit blkno (take (unat (n' - c)) offnos') s = Some (Inr s1)"
      and rest: "(if unat n' \<noteq> length tids then gl visit tids n' n' offnos' s1 else Some (Inr s1)) = Some r"
      using 1(2) nr by (auto simp: f Let_def split: bind_splits sum.splits)
    show "\<exists>s'. r = Inr s'"
    proof (cases "unat n' \<noteq> length tids")
      case True
      then have "gl visit tids n' n' offnos' s1 = Some r" using rest by simp
      then show ?thesis using 1(1) nr by blast
    next
      case False
      then show ?thesis using rest by auto
    qed
  qed
qed

lemma heap_force_common_big:
  assumes "\<not> in_recovery" "None \<notin> set ta" "sanity_check_relation rel = Inr ()"
    and "65535 < length ta"
  shows "heap_force_common in_recovery heap_force_opt ta rel = None"
proof (cases "heap_force_common in_recovery heap_force_opt ta rel")
  case None
  then show ?thesis .
next
  case (Some r)
  let ?tids = "if 1 < length ta then qsort (map the ta) else map the ta"
  let ?visit = "heap_force_page heap_force_opt (RelationGetNumberOfBlocks rel)"
  have ne: "ta \<noteq> []" using assms(4) by auto
  have loop: "group_loop ?visit ?tids 0 0 (replicate (length ta) 0) rel = Some r"
    using Some assms(1,2,3) ne
    by (simp add: heap_force_common_def sanity_check_tid_array_def Let_def)
  have big: "65535 < length ?tids" using assms(4) by (simp add: length_qsort)
  obtain e where "r = Inl e" using group_loop_diverges[OF big loop] by blast
  moreover have "\<exists>s'. r = Inr s'"
    using group_loop_never_raises_aux[OF loop] heap_force_page_never_raises by blast
  ultimately show ?thesis by auto
qed

lemma heap_force_common_runs:
  assumes "\<not> in_recovery" "None \<notin> set ta" "ta \<noteq> []" "sanity_check_relation rel = Inr ()"
    and "length ta \<le> 65535"
  shows "heap_force_common in_recovery heap_force_opt ta rel =
         visit_groups (heap_force_page heap_force_opt (RelationGetNumberOfBlocks rel))
           (page_runs (if 1 < length ta then qsort (map the ta) else map the ta)) rel"
proof -
  let ?tids = "if 1 < length ta then qsort (map the ta) else map the ta"
  let ?visit = "heap_force_page heap_force_opt (RelationGetNumberOfBlocks rel)"
  have len: "length ?tids = length ta" by (simp add: length_qsort)
  have "group_loop ?visit ?tids (of_nat 0) (of_nat 0) (replicate (length ta) 0) rel =
        visit_groups ?visit (page_runs (drop 0 ?tids)) rel"
    using assms(3,5) len by (intro group_loop_runs) auto
  then show ?thesis
    using assms(1,2,3,4)
    by (simp add: heap_force_common_def sanity_check_tid_array_def Let_def)
qed

text \<open>The offsets of a group are offsets of the array.\<close>

lemma page_runs_member:
  assumes "(b, offs) \<in> set (page_runs tids)" "offno \<in> set offs"
  shows "\<lparr>ip_blkid = b, ip_posid = offno\<rparr> \<in> set tids"
proof -
  have "\<lparr>ip_blkid = b, ip_posid = offno\<rparr> \<in> set (group_tids (b, offs))"
    using assms(2) by (simp add: group_tids_def)
  then have "\<lparr>ip_blkid = b, ip_posid = offno\<rparr> \<in> set (concat (map group_tids (page_runs tids)))"
    using assms(1) by auto
  then show ?thesis by (simp add: concat_page_runs)
qed

lemma batch_member:
  assumes "None \<notin> set ta"
    and "t \<in> set (if 1 < length ta then qsort (map the ta) else map the ta)"
  shows "Some t \<in> set ta"
proof -
  have "t \<in> the ` set ta" using assms(2) by (simp add: set_qsort split: if_splits)
  then obtain v where v: "v \<in> set ta" "t = the v" by auto
  then have "v \<noteq> None" using assms(1) by metis
  then have "v = Some t" using v(2) by (cases v) simp_all
  then show ?thesis using v(1) by simp
qed

lemma count_list_qsort_insert: "count_list (qsort_insert x ts) t = count_list (x # ts) t"
  by (induction ts) auto

lemma count_list_qsort: "count_list (qsort ts) t = count_list ts t"
  by (induction ts) (auto simp: count_list_qsort_insert)

subsection \<open>What a freeze leaves alone\<close>

lemma force_freeze_item_frame:
  "pd_flags (s_page (force_freeze_item blkno offno itemid s)) = pd_flags (s_page s)"
  "s_vm (force_freeze_item blkno offno itemid s) = s_vm s"
  by (simp_all add: force_freeze_item_def Let_def)

lemma heap_force_item_freeze_frame:
  assumes "heap_force_item HEAP_FORCE_FREEZE blkno maxoffset offno s = Some (Inr s')"
  shows "pd_flags (s_page s') = pd_flags (s_page s) \<and> s_vm s' = s_vm s"
  using assms by (cases rule: heap_force_item_cases) (simp_all add: force_freeze_item_frame)

lemma heap_force_items_freeze_frame:
  assumes "heap_force_items HEAP_FORCE_FREEZE blkno maxoffset offnos s = Some (Inr s')"
  shows "pd_flags (s_page s') = pd_flags (s_page s) \<and> s_vm s' = s_vm s"
  by (rule heap_force_items_induct[OF assms,
        where Q = "\<lambda>t. pd_flags (s_page t) = pd_flags (s_page s) \<and> s_vm t = s_vm s"])
     (auto dest: heap_force_item_freeze_frame)

lemma map_update_same:
  assumes "f x = f (xs ! i)"
  shows "map f (xs[i := x]) = map f xs"
proof (cases "i < length xs")
  case True
  have "map f (xs[i := x]) = (map f xs)[i := f x]" by (rule map_update)
  also have "\<dots> = (map f xs)[i := map f xs ! i]" using assms True by simp
  also have "\<dots> = map f xs" by (rule list_update_id)
  finally show ?thesis .
next
  case False
  then have "xs[i := x] = xs" by (intro list_update_beyond) simp
  then show ?thesis by simp
qed

lemma heap_force_page_freeze_frame:
  assumes "heap_force_page HEAP_FORCE_FREEZE nblocks blkno offnos rel = Some (Inr rel')"
  shows "map pd_flags (rd_pages rel') = map pd_flags (rd_pages rel) \<and> rd_vm rel' = rd_vm rel"
  using assms
proof (cases rule: heap_force_page_cases)
  case out_of_range
  then show ?thesis by simp
next
  case (visited s)
  have "pd_flags (s_page s) = pd_flags (rd_pages rel ! unat blkno) \<and> s_vm s = rd_vm rel"
    using heap_force_items_freeze_frame[OF visited(2)] by (simp add: begin_page_def Let_def)
  then show ?thesis
    unfolding visited(3) by (simp add: end_page_def Let_def map_update_same)
qed

subsection \<open>What a kill keeps true\<close>

lemma marked_dead_linp_iff:
  assumes "length (pd_linp page') = length (pd_linp page)"
  shows "list_ex (\<lambda>(itemId, itemId'). \<not> ItemIdIsDead itemId \<and> ItemIdIsDead itemId')
           (zip (pd_linp page) (pd_linp page')) \<longleftrightarrow>
     (\<exists>i<length (pd_linp page). \<not> ItemIdIsDead (pd_linp page ! i) \<and> ItemIdIsDead (pd_linp page' ! i))"
    (is "?l \<longleftrightarrow> ?r")
proof
  assume ?l
  then obtain x where "x \<in> set (zip (pd_linp page) (pd_linp page'))"
    "\<not> ItemIdIsDead (fst x)" "ItemIdIsDead (snd x)"
    by (auto simp: list_ex_iff)
  then show ?r by (auto simp: in_set_zip)
next
  assume ?r
  then obtain i where i: "i < length (pd_linp page)" "\<not> ItemIdIsDead (pd_linp page ! i)"
    "ItemIdIsDead (pd_linp page' ! i)" by blast
  have "i < length (zip (pd_linp page) (pd_linp page'))" using i(1) assms by simp
  then have "zip (pd_linp page) (pd_linp page') ! i \<in> set (zip (pd_linp page) (pd_linp page'))"
    by (rule nth_mem)
  moreover have "zip (pd_linp page) (pd_linp page') ! i = (pd_linp page ! i, pd_linp page' ! i)"
    using i(1) assms by simp
  ultimately show ?l
    using i(2,3) by (auto simp: list_ex_iff)
qed

lemma marked_dead_iff:
  assumes "length (pd_linp page') = length (pd_linp page)"
  shows "marked_dead page page' \<longleftrightarrow>
     (\<exists>p. valid_itemid page p \<and> \<not> ItemIdIsDead (item_at page p) \<and> ItemIdIsDead (item_at page' p))"
    (is "_ \<longleftrightarrow> ?r")
proof
  assume "marked_dead page page'"
  then consider i where "i < length (pd_linp page)" "\<not> ItemIdIsDead (pd_linp page ! i)"
      "ItemIdIsDead (pd_linp page' ! i)"
    | offno where "\<not> ItemIdIsDead (pd_outside page offno)" "ItemIdIsDead (pd_outside page' offno)"
    unfolding marked_dead_def marked_dead_linp_iff[OF assms] by blast
  then show ?r
  proof cases
    case 1
    then have "valid_itemid page (Slot i) \<and> \<not> ItemIdIsDead (item_at page (Slot i)) \<and>
               ItemIdIsDead (item_at page' (Slot i))" by simp
    then show ?thesis by (rule exI)
  next
    case 2
    then have "valid_itemid page (Outside offno) \<and> \<not> ItemIdIsDead (item_at page (Outside offno)) \<and>
               ItemIdIsDead (item_at page' (Outside offno))" by simp
    then show ?thesis by (rule exI)
  qed
next
  assume ?r
  then obtain p where p: "valid_itemid page p" "\<not> ItemIdIsDead (item_at page p)"
    "ItemIdIsDead (item_at page' p)" by blast
  show "marked_dead page page'"
  proof (cases p)
    case (Slot i)
    then have "\<exists>i<length (pd_linp page). \<not> ItemIdIsDead (pd_linp page ! i) \<and>
                 ItemIdIsDead (pd_linp page' ! i)"
      using p by auto
    then show ?thesis unfolding marked_dead_def marked_dead_linp_iff[OF assms] by (rule disjI1)
  next
    case (Outside offno)
    then have "\<exists>offno. \<not> ItemIdIsDead (pd_outside page offno) \<and> ItemIdIsDead (pd_outside page' offno)"
      using p by auto
    then show ?thesis unfolding marked_dead_def by (rule disjI2)
  qed
qed

lemma kill_inv_refl: "kill_inv page page vmbits"
  by (simp add: kill_inv_def marked_dead_iff)

lemma kill_inv_kill:
  assumes inv: "kill_inv page0 (s_page s) (s_vm s blkno)"
    and l: "valid_itemid (s_page s) itemid"
    and n: "ItemIdIsNormal (item_at (s_page s) itemid)"
  shows "kill_inv page0 (s_page (force_kill_item blkno itemid s))
           (s_vm (force_kill_item blkno itemid s) blkno)"
proof -
  let ?s' = "force_kill_item blkno itemid s"
  let ?p = "s_page s"
  have len: "length (pd_linp ?p) = length (pd_linp page0)"
    and mono: "\<And>p. valid_itemid page0 p \<Longrightarrow> ItemIdIsDead (item_at page0 p) \<Longrightarrow>
                 ItemIdIsDead (item_at ?p p)"
    and md: "marked_dead page0 ?p \<Longrightarrow> \<not> PageIsAllVisible ?p \<and>
        (PageIsAllVisible page0 \<longrightarrow> s_vm s blkno AND VISIBILITYMAP_ALL_VISIBLE = 0)"
    and nmd: "\<not> marked_dead page0 ?p \<Longrightarrow> pd_flags ?p = pd_flags page0"
    using inv unfolding kill_inv_def by blast+
  have at': "item_at (s_page ?s') q =
      (if q = itemid then ItemIdSetDead (item_at ?p itemid) else item_at ?p q)" for q
    by (simp add: force_kill_item_page(1) item_at_item_set[OF l])
  have len': "length (pd_linp (s_page ?s')) = length (pd_linp page0)"
    using len by (simp add: force_kill_item_page(2))
  have l0: "valid_itemid page0 itemid" using l valid_itemid_cong[OF len] by simp
  have nd: "\<not> ItemIdIsDead (item_at ?p itemid)" using n by (simp add: ItemIdIsNormal_iff)
  have nd0: "\<not> ItemIdIsDead (item_at page0 itemid)" using mono[OF l0] nd by auto
  have dead': "ItemIdIsDead (item_at (s_page ?s') itemid)"
    by (simp add: at' ItemIdSetDead_dead)
  have mono': "ItemIdIsDead (item_at (s_page ?s') p)"
    if "valid_itemid page0 p" "ItemIdIsDead (item_at page0 p)" for p
    using mono[OF that] by (simp add: at' ItemIdSetDead_dead)
  have "valid_itemid page0 itemid \<and> \<not> ItemIdIsDead (item_at page0 itemid) \<and>
        ItemIdIsDead (item_at (s_page ?s') itemid)"
    using l0 nd0 dead' by simp
  then have md': "marked_dead page0 (s_page ?s')"
    unfolding marked_dead_iff[OF len'] by (rule exI)
  have nav': "\<not> PageIsAllVisible (s_page ?s')"
    by (rule force_kill_item_page(4))
  have vm': "s_vm ?s' blkno AND VISIBILITYMAP_ALL_VISIBLE = 0" if av0: "PageIsAllVisible page0"
  proof (cases "PageIsAllVisible ?p")
    case True
    then show ?thesis
      by (simp add: force_kill_item_def Let_def PageIsAllVisible_item_set visibilitymap_clear_def
          clear_all_visible_bit)
  next
    case False
    then have "pd_flags ?p \<noteq> pd_flags page0" using av0 by (auto simp: PageIsAllVisible_def)
    then have "marked_dead page0 ?p" using nmd by blast
    then have "s_vm s blkno AND VISIBILITYMAP_ALL_VISIBLE = 0" using md av0 by blast
    then show ?thesis using False
      by (simp add: force_kill_item_def Let_def PageIsAllVisible_item_set)
  qed
  show ?thesis
    unfolding kill_inv_def using len' mono' md' nav' vm' by blast
qed

lemma force_kill_item_vm_frame:
  "b \<noteq> blkno \<Longrightarrow> s_vm (force_kill_item blkno itemid s) b = s_vm s b"
  by (simp add: force_kill_item_def Let_def visibilitymap_clear_def)

lemma heap_force_item_kill_inv:
  assumes "heap_force_item HEAP_FORCE_KILL blkno maxoffset offno s = Some (Inr s')"
    and "kill_inv page0 (s_page s) (s_vm s blkno)"
  shows "kill_inv page0 (s_page s') (s_vm s' blkno)"
  using assms(1)
proof (cases rule: heap_force_item_cases)
  case (skip n)
  then show ?thesis using assms(2) by simp
next
  case (kill itemid)
  show ?thesis
    unfolding kill(2) using kill_inv_kill[of page0 "s\<lparr>did_modify_page := True\<rparr>" blkno itemid]
      assms(2) kill(3,4) by simp
next
  case (freeze itemid)
  then show ?thesis by simp
qed

lemma heap_force_item_vm_frame:
  assumes "heap_force_item heap_force_opt blkno maxoffset offno s = Some (Inr s')" "b \<noteq> blkno"
  shows "s_vm s' b = s_vm s b"
  using assms(1)
  by (cases rule: heap_force_item_cases)
     (simp_all add: force_kill_item_vm_frame[OF assms(2)] force_freeze_item_frame)

lemma heap_force_items_kill_inv:
  assumes "heap_force_items HEAP_FORCE_KILL blkno maxoffset offnos s = Some (Inr s')"
    and "kill_inv page0 (s_page s) (s_vm s blkno)"
  shows "kill_inv page0 (s_page s') (s_vm s' blkno)"
  by (rule heap_force_items_induct[OF assms(1),
        where Q = "\<lambda>t. kill_inv page0 (s_page t) (s_vm t blkno)"])
     (auto intro: assms(2) heap_force_item_kill_inv)

lemma heap_force_items_vm_frame:
  assumes "heap_force_items heap_force_opt blkno maxoffset offnos s = Some (Inr s')" "b \<noteq> blkno"
  shows "s_vm s' b = s_vm s b"
  by (rule heap_force_items_induct[OF assms(1), where Q = "\<lambda>t. s_vm t b = s_vm s b"])
     (auto dest: heap_force_item_vm_frame[OF _ assms(2)])

lemma heap_force_page_kill_inv:
  assumes "heap_force_page HEAP_FORCE_KILL nblocks blkno offnos rel = Some (Inr rel')"
    and "kill_rel_inv rel0 rel"
  shows "kill_rel_inv rel0 rel'"
  using assms(1)
proof (cases rule: heap_force_page_cases)
  case out_of_range
  then show ?thesis using assms(2) by (simp add: kill_rel_inv_def)
next
  case (visited s)
  have len: "length (rd_pages rel) = length (rd_pages rel0)"
    and inv: "\<And>b. unat b < length (rd_pages rel0) \<Longrightarrow>
        kill_inv (rd_pages rel0 ! unat b) (rd_pages rel ! unat b) (rd_vm rel b)"
    using assms(2) unfolding kill_rel_inv_def by blast+
  have s0: "s_page (begin_page HEAP_FORCE_KILL blkno rel) = rd_pages rel ! unat blkno"
    "s_vm (begin_page HEAP_FORCE_KILL blkno rel) = rd_vm rel"
    by (simp_all add: begin_page_def Let_def)
  have "kill_inv (rd_pages rel0 ! unat b) (rd_pages rel' ! unat b) (rd_vm rel' b)"
    if b: "unat b < length (rd_pages rel0)" for b
  proof (cases "b = blkno")
    case True
    have "kill_inv (rd_pages rel0 ! unat blkno) (s_page s) (s_vm s blkno)"
      using heap_force_items_kill_inv[OF visited(2)] inv[of blkno] b True by (simp add: s0)
    then show ?thesis
      using b len True by (simp add: visited(3) end_page_def Let_def)
  next
    case False
    then have "unat b \<noteq> unat blkno" by (simp add: word_unat_eq_iff)
    moreover have "s_vm s b = rd_vm rel b"
      using heap_force_items_vm_frame[OF visited(2) False] by (simp add: s0)
    ultimately show ?thesis
      using inv[OF b] by (simp add: visited(3) end_page_def Let_def)
  qed
  then show ?thesis
    using len by (simp add: kill_rel_inv_def visited(3) end_page_def Let_def)
qed

subsection \<open>The trace\<close>

lemma heap_force_item_log:
  assumes "heap_force_item heap_force_opt blkno maxoffset offno s = Some (Inr s')"
  shows "\<exists>evs. s_log s' = s_log s @ evs \<and> (\<forall>e\<in>set evs. event_block e = blkno)"
  using assms
proof (cases rule: heap_force_item_cases)
  case (skip n)
  then have "s_log s' = s_log s @ [Notice n]" "event_block (Notice n) = blkno" by auto
  then show ?thesis by (intro exI[of _ "[Notice n]"]) simp
next
  case (kill itemid)
  then have "s_log s' = s_log s" by (simp add: force_kill_item_def Let_def)
  then show ?thesis by (intro exI[of _ "[]"]) simp
next
  case (freeze itemid)
  then have "s_log s' = s_log s" by (simp add: force_freeze_item_def Let_def)
  then show ?thesis by (intro exI[of _ "[]"]) simp
qed

lemma heap_force_items_log:
  assumes "heap_force_items heap_force_opt blkno maxoffset offnos s = Some (Inr s')"
  shows "\<exists>evs. s_log s' = s_log s @ evs \<and> (\<forall>e\<in>set evs. event_block e = blkno)"
proof (rule heap_force_items_induct[OF assms,
        where Q = "\<lambda>t. \<exists>evs. s_log t = s_log s @ evs \<and> (\<forall>e\<in>set evs. event_block e = blkno)"])
  show "\<exists>evs. s_log s = s_log s @ evs \<and> (\<forall>e\<in>set evs. event_block e = blkno)"
    by (intro exI[of _ "[]"]) simp
next
  fix offno t t'
  assume q: "\<exists>evs. s_log t = s_log s @ evs \<and> (\<forall>e\<in>set evs. event_block e = blkno)"
    and st: "heap_force_item heap_force_opt blkno maxoffset offno t = Some (Inr t')"
  from q obtain evs where "s_log t = s_log s @ evs" "\<forall>e\<in>set evs. event_block e = blkno"
    by blast
  moreover from heap_force_item_log[OF st] obtain evs'
    where "s_log t' = s_log t @ evs'" "\<forall>e\<in>set evs'. event_block e = blkno" by blast
  ultimately have "s_log t' = s_log s @ (evs @ evs')" "\<forall>e\<in>set (evs @ evs'). event_block e = blkno"
    by auto
  then show "\<exists>evs. s_log t' = s_log s @ evs \<and> (\<forall>e\<in>set evs. event_block e = blkno)"
    by (intro exI[of _ "evs @ evs'"] conjI)
qed

lemma end_page_log:
  "\<exists>evs. rd_log (end_page blkno rel s) = s_log s @ evs \<and> (\<forall>e\<in>set evs. event_block e = blkno)"
proof -
  let ?evs = "(if did_modify_page s
               then MarkBufferDirty blkno # (if rd_needs_wal rel then [LogNewpageBuffer blkno] else [])
               else []) @
              (if did_modify_vm s \<and> rd_needs_wal rel then [LogNewpageVm blkno] else [])"
  have "rd_log (end_page blkno rel s) = s_log s @ ?evs"
    by (simp add: end_page_def Let_def)
  moreover have "\<forall>e\<in>set ?evs. event_block e = blkno" by auto
  ultimately show ?thesis by (intro exI[of _ ?evs] conjI)
qed

lemma heap_force_page_log:
  assumes "heap_force_page heap_force_opt nblocks blkno offnos rel = Some (Inr rel')"
  shows "\<exists>evs. rd_log rel' = rd_log rel @ evs \<and> (\<forall>e\<in>set evs. event_block e = blkno) \<and>
           (if nblocks \<le> blkno then evs = [Notice (BlockOutOfRange blkno)]
            else ReadBuffer blkno \<in> set evs)"
  using assms
proof (cases rule: heap_force_page_cases)
  case out_of_range
  then show ?thesis by simp
next
  case (visited s)
  let ?s0 = "begin_page heap_force_opt blkno rel"
  obtain evs0 where e0: "s_log ?s0 = rd_log rel @ evs0" "\<forall>e\<in>set evs0. event_block e = blkno"
    "ReadBuffer blkno \<in> set evs0"
    by (cases "heap_force_opt = HEAP_FORCE_KILL \<and> PageIsAllVisible (rd_pages rel ! unat blkno)")
       (auto simp: begin_page_def Let_def)
  obtain evs1 where e1: "s_log s = s_log ?s0 @ evs1" "\<forall>e\<in>set evs1. event_block e = blkno"
    using heap_force_items_log[OF visited(2)] by blast
  obtain evs2 where e2: "rd_log rel' = s_log s @ evs2" "\<forall>e\<in>set evs2. event_block e = blkno"
    unfolding visited(3) using end_page_log[of blkno rel s] by blast
  have "rd_log rel' = rd_log rel @ (evs0 @ evs1 @ evs2)"
    "\<forall>e\<in>set (evs0 @ evs1 @ evs2). event_block e = blkno"
    "ReadBuffer blkno \<in> set (evs0 @ evs1 @ evs2)"
    using e0 e1 e2 by auto
  then show ?thesis using visited(1) by (intro exI[of _ "evs0 @ evs1 @ evs2"]) simp
qed

lemma visit_groups_log:
  assumes "visit_groups (heap_force_page heap_force_opt nblocks) gs rel = Some (Inr rel')"
  shows "\<exists>evs. rd_log rel' = rd_log rel @ evs \<and>
           (\<forall>e\<in>set evs. event_block e \<in> fst ` set gs) \<and>
           (\<forall>b\<in>fst ` set gs.
              if nblocks \<le> b
              then Notice (BlockOutOfRange b) \<in> set evs \<and>
                   (\<forall>e\<in>set evs. event_block e = b \<longrightarrow> e = Notice (BlockOutOfRange b))
              else ReadBuffer b \<in> set evs)"
  using assms
proof (induction gs arbitrary: rel)
  case Nil
  then show ?case by simp
next
  case (Cons g gs)
  obtain blkno offnos where g: "g = (blkno, offnos)" by (cases g)
  from Cons.prems obtain rel1
    where 1: "heap_force_page heap_force_opt nblocks blkno offnos rel = Some (Inr rel1)"
      and 2: "visit_groups (heap_force_page heap_force_opt nblocks) gs rel1 = Some (Inr rel')"
    unfolding g by (auto split: bind_splits sum.splits)
  obtain evs1 where e1: "rd_log rel1 = rd_log rel @ evs1" "\<forall>e\<in>set evs1. event_block e = blkno"
    "if nblocks \<le> blkno then evs1 = [Notice (BlockOutOfRange blkno)] else ReadBuffer blkno \<in> set evs1"
    using heap_force_page_log[OF 1] by blast
  obtain evs2 where e2: "rd_log rel' = rd_log rel1 @ evs2"
    "\<forall>e\<in>set evs2. event_block e \<in> fst ` set gs"
    "\<forall>b\<in>fst ` set gs.
       if nblocks \<le> b
       then Notice (BlockOutOfRange b) \<in> set evs2 \<and>
            (\<forall>e\<in>set evs2. event_block e = b \<longrightarrow> e = Notice (BlockOutOfRange b))
       else ReadBuffer b \<in> set evs2"
    using Cons.IH[OF 2] by blast
  have a: "rd_log rel' = rd_log rel @ (evs1 @ evs2)" using e1(1) e2(1) by simp
  have b: "\<forall>e\<in>set (evs1 @ evs2). event_block e \<in> fst ` set (g # gs)"
    using e1(2) e2(2) by (auto simp: g)
  have c: "if nblocks \<le> b
       then Notice (BlockOutOfRange b) \<in> set (evs1 @ evs2) \<and>
            (\<forall>e\<in>set (evs1 @ evs2). event_block e = b \<longrightarrow> e = Notice (BlockOutOfRange b))
       else ReadBuffer b \<in> set (evs1 @ evs2)" if "b \<in> fst ` set (g # gs)" for b
  proof (cases "b = blkno")
    case True
    show ?thesis
    proof (cases "nblocks \<le> b")
      case le: True
      then have ev1: "evs1 = [Notice (BlockOutOfRange b)]" using e1(3) True by simp
      have "e = Notice (BlockOutOfRange b)" if "e \<in> set evs2" "event_block e = b" for e
      proof -
        have "b \<in> fst ` set gs" using e2(2) that by blast
        then show ?thesis using e2(3) le that by (auto split: if_splits)
      qed
      then show ?thesis using le ev1 by auto
    next
      case False
      then show ?thesis using e1(3) True by auto
    qed
  next
    case False
    then have in_gs: "b \<in> fst ` set gs" using that by (auto simp: g)
    have no1: "\<forall>e\<in>set evs1. event_block e \<noteq> b" using e1(2) False by auto
    show ?thesis
      using bspec[OF e2(3) in_gs] no1 by (auto split: if_splits)
  qed
  show ?case
  proof (intro exI[of _ "evs1 @ evs2"] conjI ballI)
    show "rd_log rel' = rd_log rel @ evs1 @ evs2" by (rule a)
  next
    fix e assume "e \<in> set (evs1 @ evs2)"
    then show "event_block e \<in> fst ` set (g # gs)" using b by blast
  next
    fix b assume "b \<in> fst ` set (g # gs)"
    then show "if nblocks \<le> b
       then Notice (BlockOutOfRange b) \<in> set (evs1 @ evs2) \<and>
            (\<forall>e\<in>set (evs1 @ evs2). event_block e = b \<longrightarrow> e = Notice (BlockOutOfRange b))
       else ReadBuffer b \<in> set (evs1 @ evs2)" by (rule c)
  qed
qed

subsection \<open>Runs on the example table\<close>

lemma hot_rel_freeze_run:
  "heap_force_freeze False [Some tid_3_1, Some tid_0_1] hot_rel = Some (Inr hot_rel_frozen)"
proof -
  have g: "group_loop (heap_force_page HEAP_FORCE_FREEZE 1) [tid_0_1, tid_3_1] (of_nat 0) (of_nat 0) [0, 0] hot_rel =
     visit_groups (heap_force_page HEAP_FORCE_FREEZE 1) (page_runs (drop 0 [tid_0_1, tid_3_1])) hot_rel"
    by (rule group_loop_runs) simp_all
  have p1: "heap_force_page HEAP_FORCE_FREEZE 1 0 [1] hot_rel =
      Some (Inr (hot_rel\<lparr>rd_pages := [hot_page_frozen],
                          rd_log := [ReadBuffer 0, MarkBufferDirty 0, LogNewpageBuffer 0]\<rparr>))"
    using hot_follow_1 hot_follow_2
    by (simp add: model_defs Let_def example_defs constant_defs)
  have p2: "heap_force_page HEAP_FORCE_FREEZE 1 3 [1]
        (hot_rel\<lparr>rd_pages := [hot_page_frozen],
                 rd_log := [ReadBuffer 0, MarkBufferDirty 0, LogNewpageBuffer 0]\<rparr>) =
      Some (Inr hot_rel_frozen)"
    by (simp add: heap_force_page_def hot_rel_frozen_def)
  have runs: "page_runs (drop 0 [tid_0_1, tid_3_1]) = [(0, [1]), (3, [1])]"
    by (simp add: example_defs)
  have "group_loop (heap_force_page HEAP_FORCE_FREEZE 1) [tid_0_1, tid_3_1] 0 0 [0, 0] hot_rel =
      Some (Inr hot_rel_frozen)"
    using g[unfolded runs] p1 p2 by simp
  moreover have "qsort [tid_3_1, tid_0_1] = [tid_0_1, tid_3_1]"
    by (simp add: example_defs tidcmp_def ItemPointerCompare_def)
  moreover have "sanity_check_relation hot_rel = Inr ()" "RelationGetNumberOfBlocks hot_rel = 1"
    by (simp_all add: sanity_check_relation_def RelationGetNumberOfBlocks_def hot_rel_def constant_defs)
  ultimately show ?thesis
    by (simp add: heap_force_freeze_def heap_force_common_def sanity_check_tid_array_def)
qed

lemma hot_rel_kill_run:
  "heap_force_kill False [Some tid_0_1] hot_rel = Some (Inr hot_rel_killed)"
proof -
  have "sanity_check_relation hot_rel = Inr ()" "RelationGetNumberOfBlocks hot_rel = 1"
    by (simp_all add: sanity_check_relation_def RelationGetNumberOfBlocks_def hot_rel_def constant_defs)
  moreover have "heap_force_page HEAP_FORCE_KILL 1 0 [1] hot_rel = Some (Inr hot_rel_killed)"
    using hot_follow_1 hot_follow_2
    by (simp add: model_defs Let_def example_defs constant_defs)
  ultimately show ?thesis
    using heap_force_common_single[of False hot_rel HEAP_FORCE_KILL tid_0_1]
    by (simp add: heap_force_kill_def tid_0_1_def)
qed

lemma hot_rel_kill_dead_run:
  "heap_force_kill False [Some tid_0_3] hot_rel =
     Some (Inr (hot_rel\<lparr>rd_log := [ReadBuffer 0, VisibilitymapPin 0, Notice (AlreadyDead 0 3)]\<rparr>))"
proof -
  have "sanity_check_relation hot_rel = Inr ()" "RelationGetNumberOfBlocks hot_rel = 1"
    by (simp_all add: sanity_check_relation_def RelationGetNumberOfBlocks_def hot_rel_def constant_defs)
  moreover have "heap_force_page HEAP_FORCE_KILL 1 0 [3] hot_rel =
     Some (Inr (hot_rel\<lparr>rd_log := [ReadBuffer 0, VisibilitymapPin 0, Notice (AlreadyDead 0 3)]\<rparr>))"
    using hot_follow_3
    by (simp add: model_defs Let_def example_defs constant_defs)
  ultimately show ?thesis
    using heap_force_common_single[of False hot_rel HEAP_FORCE_KILL tid_0_3]
    by (simp add: heap_force_kill_def tid_0_3_def)
qed

lemma stray_rel_kill_run:
  "heap_force_kill False [Some tid_0_1] stray_rel =
     Some (Inr (stray_rel\<lparr>rd_log := [ReadBuffer 0, Notice (AlreadyUnused 0 1)]\<rparr>))"
proof -
  have "sanity_check_relation stray_rel = Inr ()" "RelationGetNumberOfBlocks stray_rel = 1"
    by (simp_all add: sanity_check_relation_def RelationGetNumberOfBlocks_def stray_rel_def constant_defs)
  moreover have "heap_force_page HEAP_FORCE_KILL 1 0 [1] stray_rel =
     Some (Inr (stray_rel\<lparr>rd_log := [ReadBuffer 0, Notice (AlreadyUnused 0 1)]\<rparr>))"
    using stray_follow
    by (simp add: model_defs Let_def stray_rel_def stray_page_def unused_slot_def constant_defs)
  ultimately show ?thesis
    using heap_force_common_single[of False stray_rel HEAP_FORCE_KILL tid_0_1]
    by (simp add: heap_force_kill_def tid_0_1_def)
qed

lemma cycle_rel_kill_run: "heap_force_kill False [Some tid_0_1] cycle_rel = None"
proof -
  have "sanity_check_relation cycle_rel = Inr ()" "RelationGetNumberOfBlocks cycle_rel = 1"
    by (simp_all add: sanity_check_relation_def RelationGetNumberOfBlocks_def cycle_rel_def constant_defs)
  moreover have "heap_force_page HEAP_FORCE_KILL 1 0 [1] cycle_rel = None"
  proof -
    have "s_page (begin_page HEAP_FORCE_KILL 0 cycle_rel) = cycle_page"
      by (simp add: begin_page_def Let_def cycle_rel_def)
    then have "heap_force_item HEAP_FORCE_KILL 0 (PageGetMaxOffsetNumber cycle_page) 1
        (begin_page HEAP_FORCE_KILL 0 cycle_rel) = None"
      using cycle_page_diverges
      by (simp add: heap_force_item_def PageGetMaxOffsetNumber_def cycle_page_def)
    then show ?thesis
      by (simp add: heap_force_page_def Let_def begin_page_def cycle_rel_def)
  qed
  ultimately show ?thesis
    using heap_force_common_single[of False cycle_rel HEAP_FORCE_KILL tid_0_1]
    by (simp add: heap_force_kill_def tid_0_1_def)
qed

subsection \<open>When the call returns\<close>

lemma heap_force_item_same_redirects:
  assumes "heap_force_item heap_force_opt blkno maxoffset offno s = Some (Inr s')"
  shows "same_redirects (s_page s) (s_page s')"
  using assms
proof (cases rule: heap_force_item_cases)
  case (skip n)
  then show ?thesis by (simp add: same_redirects_refl)
next
  case (kill itemid)
  show ?thesis
    unfolding kill(2)
    using force_kill_item_same_redirects[of "s\<lparr>did_modify_page := True\<rparr>" itemid blkno] kill(3,4)
    by simp
next
  case (freeze itemid)
  have "item_at (s_page s') q = item_at (s_page s) q" for q
    unfolding freeze(2) by (rule item_at_linp_outside) (simp_all add: force_freeze_item_page)
  then show ?thesis by (simp add: same_redirects_def freeze(2) force_freeze_item_page)
qed

lemma heap_force_items_same_redirects:
  assumes "heap_force_items heap_force_opt blkno maxoffset offnos s = Some (Inr s')"
  shows "same_redirects (s_page s) (s_page s')"
proof (rule heap_force_items_induct[OF assms, where Q = "\<lambda>t. same_redirects (s_page s) (s_page t)"])
  show "same_redirects (s_page s) (s_page s)" by (rule same_redirects_refl)
next
  fix offno t t'
  assume "same_redirects (s_page s) (s_page t)"
    "heap_force_item heap_force_opt blkno maxoffset offno t = Some (Inr t')"
  then show "same_redirects (s_page s) (s_page t')"
    using heap_force_item_same_redirects same_redirects_trans by blast
qed

lemma redirects_end_same:
  assumes "same_redirects page page'"
  shows "redirects_end page' offno = redirects_end page offno"
  unfolding redirects_end_def
  by (simp add: follow_redirections_same[OF assms] same_redirects_PageGetItemId[OF assms]
      same_redirects_max[OF assms])

lemma heap_force_items_total:
  assumes "same_redirects page0 (s_page s)" "maxoffset = PageGetMaxOffsetNumber page0"
    and "\<forall>offno\<in>set offnos. redirects_end page0 offno"
  shows "\<exists>s'. heap_force_items heap_force_opt blkno maxoffset offnos s = Some (Inr s')"
  using assms(1,3)
proof (induction offnos arbitrary: s)
  case Nil
  then show ?case by simp
next
  case (Cons offno offnos)
  have "redirects_end (s_page s) offno"
    using Cons.prems(2) redirects_end_same[OF Cons.prems(1)] by simp
  then have "offno = 0 \<or> maxoffset < offno \<or>
      follow_redirections (s_page s) (PageGetItemId (s_page s) offno) \<noteq> None"
    unfolding redirects_end_def assms(2) same_redirects_max[OF Cons.prems(1)] .
  then obtain s1 where 1: "heap_force_item heap_force_opt blkno maxoffset offno s = Some (Inr s1)"
    using heap_force_item_total by blast
  have "same_redirects page0 (s_page s1)"
    using Cons.prems(1) heap_force_item_same_redirects[OF 1] by (rule same_redirects_trans)
  moreover have "\<forall>offno\<in>set offnos. redirects_end page0 offno" using Cons.prems(2) by simp
  ultimately obtain s' where "heap_force_items heap_force_opt blkno maxoffset offnos s1 = Some (Inr s')"
    using Cons.IH by blast
  then show ?case using 1 by simp
qed

lemma same_redirects_rel_refl: "same_redirects_rel rel rel"
  by (simp add: same_redirects_rel_def same_redirects_refl)

lemma end_page_same_redirects:
  assumes "same_redirects_rel rel0 rel" "unat blkno < length (rd_pages rel)"
    and "same_redirects (rd_pages rel ! unat blkno) (s_page s)"
  shows "same_redirects_rel rel0 (end_page blkno rel s)"
proof -
  have len: "length (rd_pages rel) = length (rd_pages rel0)"
    and pg: "\<And>i. i < length (rd_pages rel0) \<Longrightarrow> same_redirects (rd_pages rel0 ! i) (rd_pages rel ! i)"
    using assms(1) unfolding same_redirects_rel_def by simp_all
  have "same_redirects (rd_pages rel0 ! i) (rd_pages (end_page blkno rel s) ! i)"
    if i: "i < length (rd_pages rel0)" for i
  proof (cases "i = unat blkno")
    case True
    have "same_redirects (rd_pages rel0 ! unat blkno) (s_page s)"
      using pg[OF i[unfolded True]] assms(3) by (rule same_redirects_trans)
    then show ?thesis using True assms(2) by (simp add: end_page_def Let_def)
  next
    case False
    then show ?thesis using pg[OF i] by (simp add: end_page_def Let_def)
  qed
  then show ?thesis
    unfolding same_redirects_rel_def using len by (simp add: end_page_def Let_def)
qed

lemma heap_force_page_total:
  assumes "same_redirects_rel rel0 rel" "nblocks = RelationGetNumberOfBlocks rel0"
    and "blkno < nblocks \<longrightarrow> (\<forall>offno\<in>set offnos. redirects_end (rd_pages rel0 ! unat blkno) offno)"
  shows "\<exists>rel'. heap_force_page heap_force_opt nblocks blkno offnos rel = Some (Inr rel') \<and>
           same_redirects_rel rel0 rel'"
proof (cases "nblocks \<le> blkno")
  case True
  then have "heap_force_page heap_force_opt nblocks blkno offnos rel =
      Some (Inr (rel\<lparr>rd_log := rd_log rel @ [Notice (BlockOutOfRange blkno)]\<rparr>))"
    by (simp add: heap_force_page_def)
  moreover have "same_redirects_rel rel0 (rel\<lparr>rd_log := rd_log rel @ [Notice (BlockOutOfRange blkno)]\<rparr>)"
    using assms(1) by (simp add: same_redirects_rel_def)
  ultimately show ?thesis by blast
next
  case False
  then have lt: "blkno < RelationGetNumberOfBlocks rel0" using assms(2) by simp
  have b0: "unat blkno < length (rd_pages rel0)" using lt by (rule unat_blkno_less)
  have len: "length (rd_pages rel) = length (rd_pages rel0)"
    using assms(1) by (simp add: same_redirects_rel_def)
  let ?page0 = "rd_pages rel0 ! unat blkno"
  let ?s0 = "begin_page heap_force_opt blkno rel"
  have sp: "s_page ?s0 = rd_pages rel ! unat blkno" by (simp add: begin_page_def Let_def)
  have same: "same_redirects ?page0 (s_page ?s0)"
    using assms(1) b0 unfolding sp same_redirects_rel_def by simp
  have ends: "\<forall>offno\<in>set offnos. redirects_end ?page0 offno" using assms(3) lt assms(2) by simp
  have mx: "PageGetMaxOffsetNumber (rd_pages rel ! unat blkno) = PageGetMaxOffsetNumber ?page0"
    using same_redirects_max[OF same] by (simp add: sp)
  obtain s where s: "heap_force_items heap_force_opt blkno
      (PageGetMaxOffsetNumber (rd_pages rel ! unat blkno)) offnos ?s0 = Some (Inr s)"
    using heap_force_items_total[OF same mx ends] by blast
  have run: "heap_force_page heap_force_opt nblocks blkno offnos rel = Some (Inr (end_page blkno rel s))"
    using False s by (rule heap_force_page_visit)
  have "same_redirects (rd_pages rel ! unat blkno) (s_page s)"
    using heap_force_items_same_redirects[OF s] by (simp add: sp)
  then have "same_redirects_rel rel0 (end_page blkno rel s)"
    using assms(1) b0 len by (intro end_page_same_redirects) simp_all
  then show ?thesis using run by blast
qed

lemma visit_groups_total:
  assumes "same_redirects_rel rel0 rel" "nblocks = RelationGetNumberOfBlocks rel0"
    and "\<forall>g\<in>set gs. fst g < nblocks \<longrightarrow>
           (\<forall>offno\<in>set (snd g). redirects_end (rd_pages rel0 ! unat (fst g)) offno)"
  shows "\<exists>rel'. visit_groups (heap_force_page heap_force_opt nblocks) gs rel = Some (Inr rel')"
  using assms(1,3)
proof (induction gs arbitrary: rel)
  case Nil
  then show ?case by simp
next
  case (Cons g gs)
  obtain blkno offnos where g: "g = (blkno, offnos)" by (cases g)
  have "blkno < nblocks \<longrightarrow> (\<forall>offno\<in>set offnos. redirects_end (rd_pages rel0 ! unat blkno) offno)"
    using Cons.prems(2) by (simp add: g)
  then obtain rel1 where 1: "heap_force_page heap_force_opt nblocks blkno offnos rel = Some (Inr rel1)"
    "same_redirects_rel rel0 rel1"
    using heap_force_page_total[OF Cons.prems(1) assms(2)] by blast
  moreover have "\<forall>g\<in>set gs. fst g < nblocks \<longrightarrow>
           (\<forall>offno\<in>set (snd g). redirects_end (rd_pages rel0 ! unat (fst g)) offno)"
    using Cons.prems(2) by simp
  ultimately obtain rel' where "visit_groups (heap_force_page heap_force_opt nblocks) gs rel1 = Some (Inr rel')"
    using Cons.IH by blast
  then show ?case using 1(1) by (auto simp: g)
qed

lemma heap_force_common_total:
  assumes "\<not> in_recovery" "None \<notin> set ta" "ta \<noteq> []" "sanity_check_relation rel = Inr ()"
    and "length ta \<le> 65535"
    and "\<forall>tid. Some tid \<in> set ta \<and> ip_blkid tid < RelationGetNumberOfBlocks rel \<longrightarrow>
           redirects_end (rd_pages rel ! unat (ip_blkid tid)) (ip_posid tid)"
  shows "\<exists>rel'. heap_force_common in_recovery heap_force_opt ta rel = Some (Inr rel')"
proof -
  let ?tids = "if 1 < length ta then qsort (map the ta) else map the ta"
  let ?nblocks = "RelationGetNumberOfBlocks rel"
  have "\<forall>g\<in>set (page_runs ?tids). fst g < ?nblocks \<longrightarrow>
           (\<forall>offno\<in>set (snd g). redirects_end (rd_pages rel ! unat (fst g)) offno)"
  proof (intro ballI impI)
    fix g offno
    assume g: "g \<in> set (page_runs ?tids)" and lt: "fst g < ?nblocks" and o: "offno \<in> set (snd g)"
    have "(fst g, snd g) \<in> set (page_runs ?tids)" using g by simp
    then have "\<lparr>ip_blkid = fst g, ip_posid = offno\<rparr> \<in> set ?tids" using o by (rule page_runs_member)
    then have "Some \<lparr>ip_blkid = fst g, ip_posid = offno\<rparr> \<in> set ta"
      using assms(2) by (intro batch_member)
    then show "redirects_end (rd_pages rel ! unat (fst g)) offno"
      using assms(6) lt by fastforce
  qed
  then obtain rel' where "visit_groups (heap_force_page heap_force_opt ?nblocks) (page_runs ?tids) rel =
      Some (Inr rel')"
    using visit_groups_total[OF same_redirects_rel_refl refl] by blast
  then show ?thesis
    using heap_force_common_runs[OF assms(1,2,3,4,5), of heap_force_opt] by simp
qed

subsection \<open>What a freeze does to the targeted rows\<close>

lemma force_freeze_htup_xvac:
  "t_xvac (force_freeze_htup blkno offno htup) =
     (if t_infomask htup AND HEAP_MOVED \<noteq> 0
      then (if t_infomask htup AND HEAP_MOVED_OFF \<noteq> 0 then InvalidTransactionId
            else FrozenTransactionId)
      else t_xvac htup)"
  by (simp add: force_freeze_htup_def Let_def)

lemma moved_bits_cleared:
  fixes m :: "16 word"
  shows "((m AND NOT HEAP_XACT_MASK) OR (HEAP_XMIN_FROZEN OR HEAP_XMAX_INVALID)) AND HEAP_MOVED = 0"
proof -
  let ?x = "(m AND NOT HEAP_XACT_MASK) OR (HEAP_XMIN_FROZEN OR HEAP_XMAX_INVALID)"
  have mm: "HEAP_MOVED = HEAP_XACT_MASK AND HEAP_MOVED"
    by (simp add: HEAP_MOVED_def HEAP_MOVED_OFF_def HEAP_MOVED_IN_def HEAP_XACT_MASK_def)
  have "?x AND HEAP_MOVED = (?x AND HEAP_XACT_MASK) AND HEAP_MOVED"
    by (subst mm) (simp add: and.assoc)
  also have "\<dots> = (HEAP_XMIN_FROZEN OR HEAP_XMAX_INVALID) AND HEAP_MOVED"
    by (simp only: mask_replace(1)[OF frozen_bits_in_mask])
  also have "\<dots> = 0"
    by (simp add: HEAP_MOVED_def HEAP_MOVED_OFF_def HEAP_MOVED_IN_def HEAP_XMIN_FROZEN_def
        HEAP_XMAX_INVALID_def)
  finally show ?thesis .
qed

lemma clear_twice:
  fixes x :: "16 word"
  shows "(((x AND NOT a) AND NOT b) AND NOT a) AND NOT b = (x AND NOT a) AND NOT b"
  by (simp add: bit_eq_iff bit_simps) blast

lemma force_freeze_htup_absorb:
  "force_freeze_htup blkno offno' (force_freeze_htup blkno offno htup) =
   force_freeze_htup blkno offno' htup"
proof (rule HeapTupleHeaderData.equality)
  let ?h1 = "force_freeze_htup blkno offno htup"
  have im1: "t_infomask ?h1 AND HEAP_MOVED = 0"
    by (simp only: force_freeze_htup_fields moved_bits_cleared)
  show "t_xvac (force_freeze_htup blkno offno' ?h1) = t_xvac (force_freeze_htup blkno offno' htup)"
    by (simp add: force_freeze_htup_xvac[of blkno offno' ?h1] im1)
       (simp add: force_freeze_htup_xvac[of blkno offno htup] force_freeze_htup_xvac[of blkno offno' htup])
  show "t_infomask (force_freeze_htup blkno offno' ?h1) = t_infomask (force_freeze_htup blkno offno' htup)"
    by (simp only: force_freeze_htup_fields mask_replace(2)[OF frozen_bits_in_mask])
  show "t_infomask2 (force_freeze_htup blkno offno' ?h1) = t_infomask2 (force_freeze_htup blkno offno' htup)"
    by (simp only: force_freeze_htup_fields clear_twice)
qed (simp_all add: force_freeze_htup_fields)

lemma target_slot_cong:
  assumes "pd_linp page' = pd_linp page" "pd_outside page' = pd_outside page"
  shows "target_slot page' offno = target_slot page offno"
proof -
  have at: "item_at page' p = item_at page p" for p
    using assms by (rule item_at_linp_outside)
  then have same: "same_redirects page page'"
    using assms(1) by (simp add: same_redirects_def)
  show ?thesis
    unfolding target_slot_def
    by (simp add: follow_redirections_same[OF same] same_redirects_PageGetItemId[OF same]
        same_redirects_max[OF same] at cong: map_option_cong)
qed

lemma targets_row_cong:
  assumes "pd_linp page' = pd_linp page" "pd_outside page' = pd_outside page"
  shows "targets_row page' offno off = targets_row page offno off"
  by (simp add: targets_row_def target_slot_cong[OF assms])

lemma targets_row_iff:
  "targets_row page offno off \<longleftrightarrow>
     offno \<noteq> 0 \<and> offno \<le> PageGetMaxOffsetNumber page \<and>
     (\<exists>itemid. follow_redirections page (PageGetItemId page offno) = Some itemid \<and>
        ItemIdIsNormal (item_at page itemid) \<and> lp_off (item_at page itemid) = off)"
  by (auto simp: targets_row_def target_slot_def not_less split: option.splits)

lemma targets_row_unique:
  "targets_row page offno off \<Longrightarrow> targets_row page offno off' \<Longrightarrow> off' = off"
  by (auto simp: targets_row_def split: option.splits)

lemma heap_force_item_freeze_hit:
  assumes "targets_row (s_page s) offno off" "maxoffset = PageGetMaxOffsetNumber (s_page s)"
    and "heap_force_item HEAP_FORCE_FREEZE blkno maxoffset offno s = Some (Inr s')"
  shows "pd_linp (s_page s') = pd_linp (s_page s) \<and> pd_outside (s_page s') = pd_outside (s_page s) \<and>
         pd_items (s_page s') =
           (pd_items (s_page s))(off := force_freeze_htup blkno offno (pd_items (s_page s) off))"
proof -
  obtain itemid where t: "offno \<noteq> 0" "offno \<le> maxoffset"
    "follow_redirections (s_page s) (PageGetItemId (s_page s) offno) = Some itemid"
    "ItemIdIsNormal (item_at (s_page s) itemid)" "lp_off (item_at (s_page s) itemid) = off"
    using assms(1) unfolding targets_row_iff assms(2) by blast
  have "s' = force_freeze_item blkno offno itemid (s\<lparr>did_modify_page := True\<rparr>)"
    using heap_force_item_freeze[OF t(1,2,3,4), of blkno] assms(3) by simp
  then show ?thesis using t(5) by (simp add: force_freeze_item_page)
qed

lemma heap_force_item_freeze_miss:
  assumes "\<forall>off. \<not> targets_row (s_page s) offno off" "maxoffset = PageGetMaxOffsetNumber (s_page s)"
    and "heap_force_item HEAP_FORCE_FREEZE blkno maxoffset offno s = Some (Inr s')"
  shows "s_page s' = s_page s"
  using assms(3)
proof (cases rule: heap_force_item_cases)
  case (skip n)
  then show ?thesis by simp
next
  case (kill itemid)
  then show ?thesis by simp
next
  case (freeze itemid)
  then have "targets_row (s_page s) offno (lp_off (item_at (s_page s) itemid))"
    unfolding targets_row_iff assms(2) by blast
  then show ?thesis using assms(1) by blast
qed

lemma freeze_inv_refl: "freeze_inv blkno page page {}"
  by (simp add: freeze_inv_def)

lemma freeze_inv_step:
  assumes inv: "freeze_inv blkno page0 (s_page s) D"
    and up: "\<forall>k\<in>D. k \<le> offno" and mx: "maxoffset = PageGetMaxOffsetNumber page0"
    and st: "heap_force_item HEAP_FORCE_FREEZE blkno maxoffset offno s = Some (Inr s')"
  shows "freeze_inv blkno page0 (s_page s') (insert offno D)"
proof -
  let ?p = "s_page s"
  have lo: "pd_linp ?p = pd_linp page0" "pd_outside ?p = pd_outside page0"
    and rows: "\<And>off. if \<exists>k\<in>D. targets_row page0 k off
                   then frozen_last blkno D page0 ?p off
                   else pd_items ?p off = pd_items page0 off"
    using inv unfolding freeze_inv_def by blast+
  have hit_D: "frozen_last blkno D page0 ?p off" if "\<exists>k\<in>D. targets_row page0 k off" for off
    using rows[of off] that by simp
  have miss_D: "pd_items ?p off = pd_items page0 off" if "\<not> (\<exists>k\<in>D. targets_row page0 k off)" for off
    using rows[of off] that by simp
  have tr: "targets_row ?p k off = targets_row page0 k off" for k off
    using lo by (rule targets_row_cong)
  have mx': "maxoffset = PageGetMaxOffsetNumber ?p"
    using mx lo(1) by (simp add: PageGetMaxOffsetNumber_def)
  show ?thesis
  proof (cases "\<exists>off. targets_row page0 offno off")
    case False
    then have "\<forall>off. \<not> targets_row ?p offno off" by (simp add: tr)
    then have same: "s_page s' = ?p" using mx' st by (rule heap_force_item_freeze_miss)
    have "if \<exists>k\<in>insert offno D. targets_row page0 k off
          then frozen_last blkno (insert offno D) page0 ?p off
          else pd_items ?p off = pd_items page0 off" for off
    proof (cases "\<exists>k\<in>D. targets_row page0 k off")
      case True
      then obtain k where k: "k \<in> D" "targets_row page0 k off"
        "\<forall>k'\<in>D. targets_row page0 k' off \<longrightarrow> k' \<le> k"
        "pd_items ?p off = force_freeze_htup blkno k (pd_items page0 off)"
        using hit_D[OF True] unfolding frozen_last_def by blast
      have "frozen_last blkno (insert offno D) page0 ?p off"
        unfolding frozen_last_def using k False by (intro bexI[of _ k]) auto
      then show ?thesis using True by auto
    next
      case n: False
      then have "\<not> (\<exists>k\<in>insert offno D. targets_row page0 k off)" using False by auto
      then show ?thesis using miss_D[OF n] by simp
    qed
    then show ?thesis unfolding freeze_inv_def same using lo by simp
  next
    case True
    then obtain off where hit0: "targets_row page0 offno off" by blast
    then have hit: "targets_row ?p offno off" by (simp add: tr)
    have new: "pd_linp (s_page s') = pd_linp ?p" "pd_outside (s_page s') = pd_outside ?p"
      "pd_items (s_page s') = (pd_items ?p)(off := force_freeze_htup blkno offno (pd_items ?p off))"
      using heap_force_item_freeze_hit[OF hit mx' st] by simp_all
    have cur: "force_freeze_htup blkno offno (pd_items ?p off) =
               force_freeze_htup blkno offno (pd_items page0 off)"
    proof (cases "\<exists>k\<in>D. targets_row page0 k off")
      case False
      then show ?thesis using miss_D by simp
    next
      case True
      then obtain k where "pd_items ?p off = force_freeze_htup blkno k (pd_items page0 off)"
        using hit_D unfolding frozen_last_def by blast
      then show ?thesis by (simp add: force_freeze_htup_absorb)
    qed
    have at_off: "frozen_last blkno (insert offno D) page0 (s_page s') off"
      unfolding frozen_last_def using hit0 up
      by (intro bexI[of _ offno]) (auto simp: new(3) cur)
    have "if \<exists>k\<in>insert offno D. targets_row page0 k off'
          then frozen_last blkno (insert offno D) page0 (s_page s') off'
          else pd_items (s_page s') off' = pd_items page0 off'" for off'
    proof (cases "off' = off")
      case True
      then show ?thesis using at_off hit0 by auto
    next
      case ne: False
      then have it: "pd_items (s_page s') off' = pd_items ?p off'" by (simp add: new(3))
      have no: "\<not> targets_row page0 offno off'"
        using hit0 ne targets_row_unique by blast
      show ?thesis
      proof (cases "\<exists>k\<in>D. targets_row page0 k off'")
        case True
        then obtain k where k: "k \<in> D" "targets_row page0 k off'"
          "\<forall>k'\<in>D. targets_row page0 k' off' \<longrightarrow> k' \<le> k"
          "pd_items ?p off' = force_freeze_htup blkno k (pd_items page0 off')"
          using hit_D[OF True] unfolding frozen_last_def by blast
        have "frozen_last blkno (insert offno D) page0 (s_page s') off'"
          unfolding frozen_last_def using k no it by (intro bexI[of _ k]) auto
        then show ?thesis using True by auto
      next
        case n: False
        then have "\<not> (\<exists>k\<in>insert offno D. targets_row page0 k off')" using no by auto
        then show ?thesis using miss_D[OF n] it by simp
      qed
    qed
    then show ?thesis unfolding freeze_inv_def using new(1,2) lo by simp
  qed
qed

lemma freeze_inv_items:
  assumes "heap_force_items HEAP_FORCE_FREEZE blkno maxoffset offnos s = Some (Inr s')"
    and "freeze_inv blkno page0 (s_page s) D"
    and "sorted_wrt (\<le>) offnos" and "\<forall>k\<in>D. \<forall>offno\<in>set offnos. k \<le> offno"
    and "maxoffset = PageGetMaxOffsetNumber page0"
  shows "freeze_inv blkno page0 (s_page s') (D \<union> set offnos)"
  using assms(1,2,3,4)
proof (induction offnos arbitrary: s D)
  case Nil
  then show ?case by simp
next
  case (Cons offno offnos)
  from Cons.prems(1) obtain s1
    where 1: "heap_force_item HEAP_FORCE_FREEZE blkno maxoffset offno s = Some (Inr s1)"
      and 2: "heap_force_items HEAP_FORCE_FREEZE blkno maxoffset offnos s1 = Some (Inr s')"
    by (auto split: bind_splits sum.splits)
  have up: "\<forall>k\<in>D. k \<le> offno" using Cons.prems(4) by simp
  have inv1: "freeze_inv blkno page0 (s_page s1) (insert offno D)"
    using Cons.prems(2) up assms(5) 1 by (rule freeze_inv_step)
  have srt: "sorted_wrt (\<le>) offnos" using Cons.prems(3) by simp
  have up1: "\<forall>k\<in>insert offno D. \<forall>x\<in>set offnos. k \<le> x"
    using Cons.prems(3,4) by auto
  have "freeze_inv blkno page0 (s_page s') (insert offno D \<union> set offnos)"
    using Cons.IH[OF 2 inv1 srt up1] .
  then show ?case by simp
qed

lemma freeze_rel_inv_page:
  assumes "heap_force_page HEAP_FORCE_FREEZE nblocks blkno offnos rel = Some (Inr rel')"
    and inv: "freeze_rel_inv rel0 rel D"
    and nb: "nblocks = RelationGetNumberOfBlocks rel0"
    and srt: "sorted_wrt (\<le>) offnos"
    and fresh: "\<forall>offno. (blkno, offno) \<notin> D"
  shows "freeze_rel_inv rel0 rel' (D \<union> (if blkno < nblocks then {blkno} \<times> set offnos else {}))"
  using assms(1)
proof (cases rule: heap_force_page_cases)
  case out_of_range
  then have "\<not> blkno < nblocks" by simp
  then show ?thesis using inv out_of_range(2) by (simp add: freeze_rel_inv_def)
next
  case (visited s)
  then have lt: "blkno < nblocks" by simp
  have len: "length (rd_pages rel) = length (rd_pages rel0)"
    and pg: "\<And>b. unat b < length (rd_pages rel0) \<Longrightarrow>
        freeze_inv b (rd_pages rel0 ! unat b) (rd_pages rel ! unat b) {offno. (b, offno) \<in> D}"
    using inv unfolding freeze_rel_inv_def by blast+
  have b0: "unat blkno < length (rd_pages rel0)" using lt unfolding nb by (rule unat_blkno_less)
  let ?page0 = "rd_pages rel0 ! unat blkno"
  have sp: "s_page (begin_page HEAP_FORCE_FREEZE blkno rel) = rd_pages rel ! unat blkno"
    by (simp add: begin_page_def Let_def)
  have empty: "{offno. (blkno, offno) \<in> D} = {}" using fresh by simp
  have inv0: "freeze_inv blkno ?page0 (s_page (begin_page HEAP_FORCE_FREEZE blkno rel)) {}"
    using pg[OF b0] by (simp add: sp empty)
  have mx: "PageGetMaxOffsetNumber (rd_pages rel ! unat blkno) = PageGetMaxOffsetNumber ?page0"
    using pg[OF b0] by (simp add: freeze_inv_def PageGetMaxOffsetNumber_def)
  have inv1: "freeze_inv blkno ?page0 (s_page s) ({} \<union> set offnos)"
    using visited(2) inv0 srt by (rule freeze_inv_items) (simp_all add: mx)
  let ?D' = "D \<union> (if blkno < nblocks then {blkno} \<times> set offnos else {})"
  have "freeze_inv b (rd_pages rel0 ! unat b) (rd_pages rel' ! unat b) {offno. (b, offno) \<in> ?D'}"
    if b: "unat b < length (rd_pages rel0)" for b
  proof (cases "b = blkno")
    case True
    have "{offno. (blkno, offno) \<in> ?D'} = set offnos"
      using lt fresh by auto
    moreover have "rd_pages rel' ! unat blkno = s_page s"
      using b0 len by (simp add: visited(3) end_page_def Let_def)
    ultimately show ?thesis using inv1 True by simp
  next
    case False
    then have "unat b \<noteq> unat blkno" by (simp add: word_unat_eq_iff)
    then have "rd_pages rel' ! unat b = rd_pages rel ! unat b"
      by (simp add: visited(3) end_page_def Let_def)
    moreover have "{offno. (b, offno) \<in> ?D'} = {offno. (b, offno) \<in> D}"
      using False by auto
    ultimately show ?thesis using pg[OF b] by simp
  qed
  then show ?thesis
    unfolding freeze_rel_inv_def using len by (simp add: visited(3) end_page_def Let_def)
qed

lemma freeze_rel_inv_groups:
  assumes "visit_groups (heap_force_page HEAP_FORCE_FREEZE nblocks) gs rel = Some (Inr rel')"
    and "freeze_rel_inv rel0 rel D"
    and nb: "nblocks = RelationGetNumberOfBlocks rel0"
    and "sorted_wrt (<) (map fst gs)" and "\<forall>g\<in>set gs. sorted_wrt (\<le>) (snd g)"
    and "\<forall>g\<in>set gs. \<forall>offno. (fst g, offno) \<notin> D"
  shows "freeze_rel_inv rel0 rel'
           (D \<union> {(b, offno). b < nblocks \<and> (\<exists>offs. (b, offs) \<in> set gs \<and> offno \<in> set offs)})"
  using assms(1,2,4,5,6)
proof (induction gs arbitrary: rel D)
  case Nil
  then show ?case by simp
next
  case (Cons g gs)
  obtain blkno offnos where g: "g = (blkno, offnos)" by (cases g)
  from Cons.prems(1) obtain rel1
    where 1: "heap_force_page HEAP_FORCE_FREEZE nblocks blkno offnos rel = Some (Inr rel1)"
      and 2: "visit_groups (heap_force_page HEAP_FORCE_FREEZE nblocks) gs rel1 = Some (Inr rel')"
    unfolding g by (auto split: bind_splits sum.splits)
  let ?D1 = "D \<union> (if blkno < nblocks then {blkno} \<times> set offnos else {})"
  have srt: "sorted_wrt (\<le>) offnos" using Cons.prems(4) by (simp add: g)
  have fresh: "\<forall>offno. (blkno, offno) \<notin> D" using Cons.prems(5) by (simp add: g)
  have inv1: "freeze_rel_inv rel0 rel1 ?D1"
    using freeze_rel_inv_page[OF 1 Cons.prems(2) nb srt fresh] .
  have later: "\<forall>g'\<in>set gs. blkno < fst g'" using Cons.prems(3) by (simp add: g)
  have s3: "sorted_wrt (<) (map fst gs)" using Cons.prems(3) by simp
  have s4: "\<forall>g\<in>set gs. sorted_wrt (\<le>) (snd g)" using Cons.prems(4) by simp
  have s5: "\<forall>g'\<in>set gs. \<forall>offno. (fst g', offno) \<notin> ?D1"
  proof (intro ballI allI)
    fix g' offno assume g': "g' \<in> set gs"
    then have "blkno \<noteq> fst g'" using later by auto
    moreover have "(fst g', offno) \<notin> D" using Cons.prems(5) g' by simp
    ultimately show "(fst g', offno) \<notin> ?D1" by auto
  qed
  have "freeze_rel_inv rel0 rel'
      (?D1 \<union> {(b, offno). b < nblocks \<and> (\<exists>offs. (b, offs) \<in> set gs \<and> offno \<in> set offs)})"
    using Cons.IH[OF 2 inv1 s3 s4 s5] .
  moreover have "?D1 \<union> {(b, offno). b < nblocks \<and> (\<exists>offs. (b, offs) \<in> set gs \<and> offno \<in> set offs)} =
      D \<union> {(b, offno). b < nblocks \<and> (\<exists>offs. (b, offs) \<in> set (g # gs) \<and> offno \<in> set offs)}"
    by (auto simp: g)
  ultimately show ?case by simp
qed

lemma sorted_wrt_short: "length xs \<le> 1 \<Longrightarrow> sorted_wrt P xs"
  by (cases xs) auto

lemma page_runs_cover:
  assumes "t \<in> set tids"
  shows "\<exists>offs. (ip_blkid t, offs) \<in> set (page_runs tids) \<and> ip_posid t \<in> set offs"
proof -
  have "t \<in> set (concat (map group_tids (page_runs tids)))"
    using assms by (simp add: concat_page_runs)
  then obtain g where g: "g \<in> set (page_runs tids)" "t \<in> set (group_tids g)" by auto
  then have "ip_blkid t = fst g" "ip_posid t \<in> set (snd g)"
    by (auto simp: group_tids_def)
  then show ?thesis using g(1) by (intro exI[of _ "snd g"]) simp
qed

lemma heap_force_freeze_rows:
  assumes run: "heap_force_freeze in_recovery ta rel = Some (Inr rel')"
    and blk: "blkno < RelationGetNumberOfBlocks rel"
  shows "freeze_inv blkno (rd_pages rel ! unat blkno) (rd_pages rel' ! unat blkno)
           (batch_offsets ta blkno)"
proof -
  let ?tids = "if 1 < length ta then qsort (map the ta) else map the ta"
  let ?nblocks = "RelationGetNumberOfBlocks rel"
  have v: "None \<notin> set ta"
    and groups: "visit_groups (heap_force_page HEAP_FORCE_FREEZE ?nblocks) (page_runs ?tids) rel =
      Some (Inr rel')"
    using heap_force_common_Inr[OF run[unfolded heap_force_freeze_def]] by simp_all
  have "sorted_wrt tid_le ?tids"
    by (simp add: sorted_qsort sorted_wrt_short)
  then have srt: "sorted_wrt (<) (map fst (page_runs ?tids))"
    "\<forall>g\<in>set (page_runs ?tids). sorted_wrt (\<le>) (snd g)"
    using page_runs_sorted by blast+
  have start: "freeze_rel_inv rel rel {}"
    by (simp add: freeze_rel_inv_def freeze_inv_refl)
  let ?D = "{} \<union> {(b, offno). b < ?nblocks \<and>
      (\<exists>offs. (b, offs) \<in> set (page_runs ?tids) \<and> offno \<in> set offs)}"
  have inv: "freeze_rel_inv rel rel' ?D"
    using freeze_rel_inv_groups[OF groups start refl srt] by simp
  have eq: "{offno. (blkno, offno) \<in> ?D} = batch_offsets ta blkno"
  proof (intro set_eqI iffI)
    fix offno assume "offno \<in> {offno. (blkno, offno) \<in> ?D}"
    then obtain offs where "(blkno, offs) \<in> set (page_runs ?tids)" "offno \<in> set offs" by auto
    then have "\<lparr>ip_blkid = blkno, ip_posid = offno\<rparr> \<in> set ?tids" by (rule page_runs_member)
    then have "Some \<lparr>ip_blkid = blkno, ip_posid = offno\<rparr> \<in> set ta" using v by (intro batch_member)
    then show "offno \<in> batch_offsets ta blkno" unfolding batch_offsets_def by force
  next
    fix offno assume "offno \<in> batch_offsets ta blkno"
    then obtain u where u: "Some u \<in> set ta" "ip_blkid u = blkno" "ip_posid u = offno"
      unfolding batch_offsets_def by blast
    have "the (Some u) \<in> the ` set ta" using u(1) by (rule imageI)
    then have "u \<in> set ?tids" by (simp add: set_qsort)
    then show "offno \<in> {offno. (blkno, offno) \<in> ?D}" using page_runs_cover u(2,3) blk by fastforce
  qed
  have b0: "unat blkno < length (rd_pages rel)" using blk by (rule unat_blkno_less)
  have "freeze_inv blkno (rd_pages rel ! unat blkno) (rd_pages rel' ! unat blkno)
          {offno. (blkno, offno) \<in> ?D}"
    using inv b0 unfolding freeze_rel_inv_def by blast
  then show ?thesis by (simp only: eq)
qed

section \<open>The claims\<close>

text \<open>
  Claim C1, as stated: for every targeted row identifier that resolves to a normal slot,
  \<open>heap_force_freeze\<close> rewrites the self pointer of the row to the block and the offset
  of that identifier. On the example table the row identifier (0, 1) is a redirect to
  the normal slot at offset 2; freezing the batch of (0, 1) and (0, 2) leaves the row
  with the self pointer (0, 2), not (0, 1): the row is frozen once for each of the two
  identifiers, and the one with the greater offset is the last to write.
\<close>

theorem heap_force_freeze_shared_row:
  "target_slot hot_page 1 = Some \<lparr>lp_off = 8128, lp_flags = LP_NORMAL, lp_len = 28\<rparr> \<and>
   ItemIdIsNormal \<lparr>lp_off = 8128, lp_flags = LP_NORMAL, lp_len = 28\<rparr> \<and>
   map_option
     (map_sum (\<lambda>e. ())
        (\<lambda>r. t_ctid (PageGetItem (rd_pages r ! 0) \<lparr>lp_off = 8128, lp_flags = LP_NORMAL, lp_len = 28\<rparr>)))
     (heap_force_freeze False [Some tid_0_1, Some tid_0_2] hot_rel) =
   Some (Inr \<lparr>ip_blkid = 0, ip_posid = 2\<rparr>)"
  by code_simp

text \<open>
  Claim C1, amended. After a \<open>heap_force_freeze\<close> that returns, for every row
  identifier of the batch that is in range and resolves, after the redirects, to a
  normal slot: the line pointers of the page are as before, and the tuple header of
  the slot has xmin the frozen sentinel, xmax the invalid sentinel, of the bits of
  \<open>HEAP_XACT_MASK\<close> exactly those of \<open>HEAP_XMIN_FROZEN\<close> and \<open>HEAP_XMAX_INVALID\<close> set, the
  other bits of the info mask kept, and \<open>HEAP_HOT_UPDATED\<close> and \<open>HEAP_KEYS_UPDATED\<close>
  clear. The header is the header before the call, frozen for the row identifier with
  the greatest offset among those of the batch on the same block that resolve to the
  same row, and the self pointer is the block and the offset of that identifier: the
  offset of the identifier itself when no identifier of the batch with another offset
  resolves to the same row.
\<close>

theorem force_freeze_target:
  assumes "heap_force_freeze in_recovery ta rel = Some (Inr rel')"
    and "Some tid \<in> set ta"
    and "ip_blkid tid < RelationGetNumberOfBlocks rel"
    and "target_slot (rd_pages rel ! unat (ip_blkid tid)) (ip_posid tid) = Some itemId"
    and "ItemIdIsNormal itemId"
  shows "pd_linp (rd_pages rel' ! unat (ip_blkid tid)) = pd_linp (rd_pages rel ! unat (ip_blkid tid)) \<and>
         t_xmin (PageGetItem (rd_pages rel' ! unat (ip_blkid tid)) itemId) = FrozenTransactionId \<and>
         t_xmax (PageGetItem (rd_pages rel' ! unat (ip_blkid tid)) itemId) = InvalidTransactionId \<and>
         t_infomask (PageGetItem (rd_pages rel' ! unat (ip_blkid tid)) itemId) AND HEAP_XACT_MASK =
           HEAP_XMIN_FROZEN OR HEAP_XMAX_INVALID \<and>
         t_infomask (PageGetItem (rd_pages rel' ! unat (ip_blkid tid)) itemId) AND NOT HEAP_XACT_MASK =
           t_infomask (PageGetItem (rd_pages rel ! unat (ip_blkid tid)) itemId) AND NOT HEAP_XACT_MASK \<and>
         t_infomask2 (PageGetItem (rd_pages rel' ! unat (ip_blkid tid)) itemId) AND
           (HEAP_HOT_UPDATED OR HEAP_KEYS_UPDATED) = 0 \<and>
         (\<exists>u. Some u \<in> set ta \<and> ip_blkid u = ip_blkid tid \<and>
            targets_row (rd_pages rel ! unat (ip_blkid tid)) (ip_posid u) (lp_off itemId) \<and>
            (\<forall>v. Some v \<in> set ta \<and> ip_blkid v = ip_blkid tid \<and>
                 targets_row (rd_pages rel ! unat (ip_blkid tid)) (ip_posid v) (lp_off itemId) \<longrightarrow>
                 ip_posid v \<le> ip_posid u) \<and>
            PageGetItem (rd_pages rel' ! unat (ip_blkid tid)) itemId =
              force_freeze_htup (ip_blkid tid) (ip_posid u)
                (PageGetItem (rd_pages rel ! unat (ip_blkid tid)) itemId) \<and>
            t_ctid (PageGetItem (rd_pages rel' ! unat (ip_blkid tid)) itemId) =
              \<lparr>ip_blkid = ip_blkid tid, ip_posid = ip_posid u\<rparr>) \<and>
         ((\<forall>u. Some u \<in> set ta \<and> ip_blkid u = ip_blkid tid \<and>
               targets_row (rd_pages rel ! unat (ip_blkid tid)) (ip_posid u) (lp_off itemId) \<longrightarrow>
               ip_posid u = ip_posid tid) \<longrightarrow>
          t_ctid (PageGetItem (rd_pages rel' ! unat (ip_blkid tid)) itemId) =
            \<lparr>ip_blkid = ip_blkid tid, ip_posid = ip_posid tid\<rparr>)"
proof -
  let ?b = "ip_blkid tid"
  let ?page = "rd_pages rel ! unat ?b"
  let ?page' = "rd_pages rel' ! unat ?b"
  have row: "targets_row ?page (ip_posid tid) (lp_off itemId)"
    using assms(4,5) by (simp add: targets_row_def)
  have mem: "ip_posid tid \<in> batch_offsets ta ?b"
    using assms(2) unfolding batch_offsets_def by blast
  have inv: "freeze_inv ?b ?page ?page' (batch_offsets ta ?b)"
    using assms(1,3) by (rule heap_force_freeze_rows)
  have linp: "pd_linp ?page' = pd_linp ?page" using inv unfolding freeze_inv_def by blast
  have hit: "\<exists>offno\<in>batch_offsets ta ?b. targets_row ?page offno (lp_off itemId)"
    using mem row by blast
  have "if \<exists>offno\<in>batch_offsets ta ?b. targets_row ?page offno (lp_off itemId)
        then frozen_last ?b (batch_offsets ta ?b) ?page ?page' (lp_off itemId)
        else pd_items ?page' (lp_off itemId) = pd_items ?page (lp_off itemId)"
    using inv unfolding freeze_inv_def by blast
  then have "frozen_last ?b (batch_offsets ta ?b) ?page ?page' (lp_off itemId)"
    using hit by simp
  then obtain k where k: "k \<in> batch_offsets ta ?b" "targets_row ?page k (lp_off itemId)"
    "\<forall>k'\<in>batch_offsets ta ?b. targets_row ?page k' (lp_off itemId) \<longrightarrow> k' \<le> k"
    "pd_items ?page' (lp_off itemId) = force_freeze_htup ?b k (pd_items ?page (lp_off itemId))"
    unfolding frozen_last_def by blast
  obtain u where u: "Some u \<in> set ta" "ip_blkid u = ?b" "ip_posid u = k"
    using k(1) unfolding batch_offsets_def by blast
  have h: "PageGetItem ?page' itemId = force_freeze_htup ?b (ip_posid u) (PageGetItem ?page itemId)"
    using k(4) u(3) by (simp add: PageGetItem_def)
  have greatest: "\<forall>v. Some v \<in> set ta \<and> ip_blkid v = ?b \<and>
      targets_row ?page (ip_posid v) (lp_off itemId) \<longrightarrow> ip_posid v \<le> ip_posid u"
  proof (intro allI impI)
    fix v assume v: "Some v \<in> set ta \<and> ip_blkid v = ?b \<and> targets_row ?page (ip_posid v) (lp_off itemId)"
    then have "ip_posid v \<in> batch_offsets ta ?b" unfolding batch_offsets_def by blast
    then show "ip_posid v \<le> ip_posid u" using k(3) v u(3) by blast
  qed
  have ctid: "t_ctid (PageGetItem ?page' itemId) = \<lparr>ip_blkid = ?b, ip_posid = ip_posid u\<rparr>"
    by (simp only: h force_freeze_htup_fields)
  have fields: "t_xmin (PageGetItem ?page' itemId) = FrozenTransactionId"
    "t_xmax (PageGetItem ?page' itemId) = InvalidTransactionId"
    "t_infomask (PageGetItem ?page' itemId) AND HEAP_XACT_MASK = HEAP_XMIN_FROZEN OR HEAP_XMAX_INVALID"
    "t_infomask (PageGetItem ?page' itemId) AND NOT HEAP_XACT_MASK =
       t_infomask (PageGetItem ?page itemId) AND NOT HEAP_XACT_MASK"
    "t_infomask2 (PageGetItem ?page' itemId) AND (HEAP_HOT_UPDATED OR HEAP_KEYS_UPDATED) = 0"
    by (simp_all only: h force_freeze_htup_fields mask_replace[OF frozen_bits_in_mask] clear_two_bits)
  have ex: "\<exists>u. Some u \<in> set ta \<and> ip_blkid u = ?b \<and>
            targets_row ?page (ip_posid u) (lp_off itemId) \<and>
            (\<forall>v. Some v \<in> set ta \<and> ip_blkid v = ?b \<and>
                 targets_row ?page (ip_posid v) (lp_off itemId) \<longrightarrow> ip_posid v \<le> ip_posid u) \<and>
            PageGetItem ?page' itemId =
              force_freeze_htup ?b (ip_posid u) (PageGetItem ?page itemId) \<and>
            t_ctid (PageGetItem ?page' itemId) = \<lparr>ip_blkid = ?b, ip_posid = ip_posid u\<rparr>"
    using u(1,2) k(2)[folded u(3)] greatest h ctid by (intro exI[of _ u]) simp
  have own: "t_ctid (PageGetItem ?page' itemId) = \<lparr>ip_blkid = ?b, ip_posid = ip_posid tid\<rparr>"
    if "\<forall>u. Some u \<in> set ta \<and> ip_blkid u = ?b \<and>
            targets_row ?page (ip_posid u) (lp_off itemId) \<longrightarrow> ip_posid u = ip_posid tid"
  proof -
    have "ip_posid u = ip_posid tid" using that u(1,2) k(2) u(3) by blast
    then show ?thesis using ctid by simp
  qed
  show ?thesis using linp fields ex own by blast
qed

text \<open>
  The freeze of (3, 1) and (0, 1) on the example table: (0, 1) is a redirect to the
  normal slot at offset 2, whose row is stored at the byte offset 8128.
\<close>

theorem force_freeze_target_witness:
  "heap_force_freeze False [Some tid_3_1, Some tid_0_1] hot_rel = Some (Inr hot_rel_frozen) \<and>
   target_slot (rd_pages hot_rel ! unat (ip_blkid tid_0_1)) (ip_posid tid_0_1) =
     Some \<lparr>lp_off = 8128, lp_flags = LP_NORMAL, lp_len = 28\<rparr> \<and>
   t_xmin (PageGetItem (rd_pages hot_rel_frozen ! unat (ip_blkid tid_0_1))
     \<lparr>lp_off = 8128, lp_flags = LP_NORMAL, lp_len = 28\<rparr>) = FrozenTransactionId \<and>
   t_xmax (PageGetItem (rd_pages hot_rel_frozen ! unat (ip_blkid tid_0_1))
     \<lparr>lp_off = 8128, lp_flags = LP_NORMAL, lp_len = 28\<rparr>) = InvalidTransactionId \<and>
   t_infomask (PageGetItem (rd_pages hot_rel_frozen ! unat (ip_blkid tid_0_1))
     \<lparr>lp_off = 8128, lp_flags = LP_NORMAL, lp_len = 28\<rparr>) AND HEAP_XACT_MASK =
     HEAP_XMIN_FROZEN OR HEAP_XMAX_INVALID \<and>
   t_infomask2 (PageGetItem (rd_pages hot_rel_frozen ! unat (ip_blkid tid_0_1))
     \<lparr>lp_off = 8128, lp_flags = LP_NORMAL, lp_len = 28\<rparr>) AND
     (HEAP_HOT_UPDATED OR HEAP_KEYS_UPDATED) = 0 \<and>
   t_ctid (PageGetItem (rd_pages hot_rel_frozen ! unat (ip_blkid tid_0_1))
     \<lparr>lp_off = 8128, lp_flags = LP_NORMAL, lp_len = 28\<rparr>) = \<lparr>ip_blkid = 0, ip_posid = 1\<rparr>"
proof -
  let ?it = "\<lparr>lp_off = 8128, lp_flags = LP_NORMAL, lp_len = 28\<rparr>"
  have mem: "Some tid_0_1 \<in> set [Some tid_3_1, Some tid_0_1]" by simp
  have blk: "ip_blkid tid_0_1 < RelationGetNumberOfBlocks hot_rel"
    by (simp add: RelationGetNumberOfBlocks_def hot_rel_def tid_0_1_def)
  have slot: "target_slot (rd_pages hot_rel ! unat (ip_blkid tid_0_1)) (ip_posid tid_0_1) = Some ?it"
    using hot_follow_1
    by (simp add: target_slot_def hot_rel_def tid_0_1_def PageGetMaxOffsetNumber_def
        PageGetItemId_def hot_page_def)
  have normal: "ItemIdIsNormal ?it" by (simp add: ItemIdIsNormal_def)
  have own: "\<forall>u. Some u \<in> set [Some tid_3_1, Some tid_0_1] \<and> ip_blkid u = ip_blkid tid_0_1 \<and>
      targets_row (rd_pages hot_rel ! unat (ip_blkid tid_0_1)) (ip_posid u) (lp_off ?it) \<longrightarrow>
      ip_posid u = ip_posid tid_0_1"
    by (auto simp: tid_3_1_def tid_0_1_def)
  show ?thesis
    using force_freeze_target [OF hot_rel_freeze_run mem blk slot normal] own hot_rel_freeze_run slot
    by (simp add: tid_0_1_def)
qed

text \<open>
  Claim C2. After a \<open>heap_force_kill\<close> that returns, for every block of the relation
  whose page was all-visible before the call: if a row of the page has been marked
  dead, the all-visible flag of the page and the all-visible bit of the block in the
  visibility map are clear; if none has, the flag is still set.
\<close>

theorem force_kill_visibility_coupling:
  assumes "heap_force_kill in_recovery ta rel = Some (Inr rel')"
    and "blkno < RelationGetNumberOfBlocks rel"
    and "PageIsAllVisible (rd_pages rel ! unat blkno)"
  shows "if marked_dead (rd_pages rel ! unat blkno) (rd_pages rel' ! unat blkno)
         then \<not> PageIsAllVisible (rd_pages rel' ! unat blkno) \<and>
              rd_vm rel' blkno AND VISIBILITYMAP_ALL_VISIBLE = 0
         else PageIsAllVisible (rd_pages rel' ! unat blkno)"
proof -
  have "visit_groups (heap_force_page HEAP_FORCE_KILL (RelationGetNumberOfBlocks rel))
           (page_runs (if 1 < length ta then qsort (map the ta) else map the ta)) rel = Some (Inr rel')"
    using heap_force_common_Inr[OF assms(1)[unfolded heap_force_kill_def]] by simp
  then have "kill_rel_inv rel rel'"
  proof (rule visit_groups_induct[where Q = "kill_rel_inv rel"])
    show "kill_rel_inv rel rel" by (simp add: kill_rel_inv_def kill_inv_refl)
  next
    fix blkno offnos s s'
    assume "kill_rel_inv rel s"
      "heap_force_page HEAP_FORCE_KILL (RelationGetNumberOfBlocks rel) blkno offnos s = Some (Inr s')"
    then show "kill_rel_inv rel s'" by (rule heap_force_page_kill_inv[rotated])
  qed
  then have "kill_inv (rd_pages rel ! unat blkno) (rd_pages rel' ! unat blkno) (rd_vm rel' blkno)"
    using unat_blkno_less[OF assms(2)] by (simp add: kill_rel_inv_def)
  then show ?thesis
    using assms(3) by (auto simp: kill_inv_def PageIsAllVisible_def)
qed

text \<open>
  On the example table: the kill of (0, 1) marks a row dead and clears flag and bit;
  the kill of (0, 3), whose slot is dead already, marks none and the flag stays.
\<close>

theorem force_kill_visibility_coupling_witness:
  "heap_force_kill False [Some tid_0_1] hot_rel = Some (Inr hot_rel_killed) \<and>
   PageIsAllVisible (rd_pages hot_rel ! unat (0 :: BlockNumber)) \<and>
   marked_dead (rd_pages hot_rel ! unat (0 :: BlockNumber)) (rd_pages hot_rel_killed ! unat (0 :: BlockNumber)) \<and>
   \<not> PageIsAllVisible (rd_pages hot_rel_killed ! unat (0 :: BlockNumber)) \<and>
   rd_vm hot_rel_killed 0 AND VISIBILITYMAP_ALL_VISIBLE = 0 \<and>
   heap_force_kill False [Some tid_0_3] hot_rel =
     Some (Inr (hot_rel\<lparr>rd_log := [ReadBuffer 0, VisibilitymapPin 0, Notice (AlreadyDead 0 3)]\<rparr>)) \<and>
   \<not> marked_dead (rd_pages hot_rel ! unat (0 :: BlockNumber))
       (rd_pages (hot_rel\<lparr>rd_log := [ReadBuffer 0, VisibilitymapPin 0, Notice (AlreadyDead 0 3)]\<rparr>) !
          unat (0 :: BlockNumber)) \<and>
   PageIsAllVisible
     (rd_pages (hot_rel\<lparr>rd_log := [ReadBuffer 0, VisibilitymapPin 0, Notice (AlreadyDead 0 3)]\<rparr>) !
        unat (0 :: BlockNumber))"
proof -
  have b: "(0 :: BlockNumber) < RelationGetNumberOfBlocks hot_rel"
    by (simp add: RelationGetNumberOfBlocks_def hot_rel_def)
  have av: "PageIsAllVisible (rd_pages hot_rel ! unat (0 :: BlockNumber))"
    by (simp add: hot_rel_def hot_page_def PageIsAllVisible_def PD_ALL_VISIBLE_def)
  have md: "marked_dead (rd_pages hot_rel ! unat (0 :: BlockNumber))
              (rd_pages hot_rel_killed ! unat (0 :: BlockNumber))"
    by (simp add: marked_dead_def example_defs ItemIdIsDead_def constant_defs)
  have nmd: "\<not> marked_dead (rd_pages hot_rel ! unat (0 :: BlockNumber))
       (rd_pages (hot_rel\<lparr>rd_log := [ReadBuffer 0, VisibilitymapPin 0, Notice (AlreadyDead 0 3)]\<rparr>) !
          unat (0 :: BlockNumber))"
    by (simp add: marked_dead_def example_defs ItemIdIsDead_def constant_defs)
  show ?thesis
    using force_kill_visibility_coupling [OF hot_rel_kill_run b av]
      force_kill_visibility_coupling [OF hot_rel_kill_dead_run b av]
      hot_rel_kill_run hot_rel_kill_dead_run av md nmd
    by simp
qed

text \<open>
  Claim C3. When a fatal error applies (recovery in progress, a null in the array, an
  empty array, a relation that is no table, materialized view or TOAST table, a caller
  who is not the owner), \<open>heap_force_common\<close> raises it, the first that applies in the
  order of the checks in the code, and the relation at the time of the error is the
  relation it was given: no page, no visibility map bit and no entry of the trace
  (so no buffer read) has changed.
\<close>

theorem heap_force_common_fatal_error:
  assumes "in_recovery \<or> None \<in> set ta \<or> ta = [] \<or>
           (relkind rel \<noteq> RELKIND_RELATION \<and> relkind rel \<noteq> RELKIND_MATVIEW \<and>
            relkind rel \<noteq> RELKIND_TOASTVALUE) \<or> \<not> rd_owned rel"
  shows "heap_force_common in_recovery heap_force_opt ta rel =
           Some (Inl (Raised
             (if in_recovery then RecoveryInProgress
              else if None \<in> set ta then NullValueNotAllowed
              else if ta = [] then EmptyTidArray
              else if relkind rel \<noteq> RELKIND_RELATION \<and> relkind rel \<noteq> RELKIND_MATVIEW \<and>
                      relkind rel \<noteq> RELKIND_TOASTVALUE then WrongObjectType
              else NotOwner) rel))"
  using assms
  by (auto simp: heap_force_common_def sanity_check_tid_array_def sanity_check_relation_def Let_def)

text \<open>
  Each of the five errors, on the relations of the regression test.
\<close>

theorem heap_force_common_fatal_error_witness:
  "heap_force_common True HEAP_FORCE_KILL [Some tid_0_4] htab =
     Some (Inl (Raised RecoveryInProgress htab)) \<and>
   heap_force_common False HEAP_FORCE_FREEZE [Some tid_0_4, None] htab =
     Some (Inl (Raised NullValueNotAllowed htab)) \<and>
   heap_force_common False HEAP_FORCE_KILL [] htab =
     Some (Inl (Raised EmptyTidArray htab)) \<and>
   heap_force_common False HEAP_FORCE_KILL [Some tid_0_1] vw =
     Some (Inl (Raised WrongObjectType vw)) \<and>
   heap_force_common False HEAP_FORCE_FREEZE [Some tid_0_1] (htab\<lparr>rd_owned := False\<rparr>) =
     Some (Inl (Raised NotOwner (htab\<lparr>rd_owned := False\<rparr>)))"
  using heap_force_common_fatal_error [of True "[Some tid_0_4]" htab HEAP_FORCE_KILL]
    heap_force_common_fatal_error [of False "[Some tid_0_4, None]" htab HEAP_FORCE_FREEZE]
    heap_force_common_fatal_error [of False "[]" htab HEAP_FORCE_KILL]
    heap_force_common_fatal_error [of False "[Some tid_0_1]" vw HEAP_FORCE_KILL]
    heap_force_common_fatal_error [of False "[Some tid_0_1]" "htab\<lparr>rd_owned := False\<rparr>" HEAP_FORCE_FREEZE]
  by (simp add: htab_def vw_def RELKIND_RELATION_def RELKIND_MATVIEW_def RELKIND_TOASTVALUE_def)

text \<open>
  Claim C4, at a batch of 65536 row identifiers (65536 times the row identifier
  (0, 1), already sorted). The first call of \<open>tids_same_page_fetch_offnums\<close> returns
  block 0 and leaves the cursor at 0, where it was, and not at \<^verbatim>\<open>ntids\<close>: the next round
  of the loop visits block 0 again, and so on; the loop does not produce a sequence
  of groups in which block 0 appears once, and does not end. (For a sorted batch of
  at most 65535 row identifiers the groups are the runs of \<open>page_runs\<close>, with the
  order that \<open>page_runs_sorted\<close> states.)
\<close>

theorem page_groups_wrap_at_65536:
  "fst (tids_same_page_fetch_offnums (qsort (replicate 65536 tid_0_1)) 0 (replicate 65536 0)) = 0 \<and>
   fst (snd (tids_same_page_fetch_offnums (qsort (replicate 65536 tid_0_1)) 0 (replicate 65536 0))) = 0 \<and>
   page_groups (qsort (replicate 65536 tid_0_1)) = None"
  using wrap_fetch by (auto simp: qsort_replicate page_groups_diverges)



text \<open>
  Claim C6. For every row identifier of the batch whose block number is not below the
  number of blocks of the relation: the visit of its group returns at once, whatever
  the offsets and the state, with the notice added to the trace and nothing else
  changed; and after a call of either operation that returns,
  the trace has grown by entries among which the notice for that block is found, and
  the notice is the only entry about that block (no buffer read, no pin, nothing
  marked dirty or logged); and the buffer of every block of the batch that is in range
  has been read, so the loop went on over the other groups.
\<close>

theorem block_out_of_range_skipped:
  assumes "heap_force_common in_recovery heap_force_opt ta rel = Some (Inr rel')"
    and "Some tid \<in> set ta"
    and "RelationGetNumberOfBlocks rel \<le> ip_blkid tid"
  shows "(\<forall>offnos r. heap_force_page heap_force_opt (RelationGetNumberOfBlocks rel) (ip_blkid tid)
              offnos r =
            Some (Inr (r\<lparr>rd_log := rd_log r @ [Notice (BlockOutOfRange (ip_blkid tid))]\<rparr>))) \<and>
         (\<exists>evs. rd_log rel' = rd_log rel @ evs \<and>
           Notice (BlockOutOfRange (ip_blkid tid)) \<in> set evs \<and>
           (\<forall>e\<in>set evs. event_block e = ip_blkid tid \<longrightarrow> e = Notice (BlockOutOfRange (ip_blkid tid))) \<and>
           (\<forall>u. Some u \<in> set ta \<and> ip_blkid u < RelationGetNumberOfBlocks rel \<longrightarrow>
                ReadBuffer (ip_blkid u) \<in> set evs))"
proof
  show "\<forall>offnos r. heap_force_page heap_force_opt (RelationGetNumberOfBlocks rel) (ip_blkid tid)
              offnos r =
            Some (Inr (r\<lparr>rd_log := rd_log r @ [Notice (BlockOutOfRange (ip_blkid tid))]\<rparr>))"
    using assms(3) by (simp add: heap_force_page_def)
next
  let ?tids = "if 1 < length ta then qsort (map the ta) else map the ta"
  have run: "visit_groups (heap_force_page heap_force_opt (RelationGetNumberOfBlocks rel))
           (page_runs ?tids) rel = Some (Inr rel')"
    using heap_force_common_Inr[OF assms(1)] by simp
  have blocks: "fst ` set (page_runs ?tids) = ip_blkid ` the ` set ta"
    by (simp add: page_runs_blocks set_qsort)
  have mem: "ip_blkid u \<in> fst ` set (page_runs ?tids)" if "Some u \<in> set ta" for u
  proof -
    have "the (Some u) \<in> the ` set ta" using that by (rule imageI)
    then show ?thesis unfolding blocks by auto
  qed
  obtain evs where e: "rd_log rel' = rd_log rel @ evs"
    "\<forall>b\<in>fst ` set (page_runs ?tids).
       if RelationGetNumberOfBlocks rel \<le> b
       then Notice (BlockOutOfRange b) \<in> set evs \<and>
            (\<forall>e\<in>set evs. event_block e = b \<longrightarrow> e = Notice (BlockOutOfRange b))
       else ReadBuffer b \<in> set evs"
    using visit_groups_log[OF run] by blast
  have "Notice (BlockOutOfRange (ip_blkid tid)) \<in> set evs \<and>
        (\<forall>e\<in>set evs. event_block e = ip_blkid tid \<longrightarrow> e = Notice (BlockOutOfRange (ip_blkid tid)))"
    using bspec[OF e(2) mem[OF assms(2)]] assms(3) by simp
  moreover have "ReadBuffer (ip_blkid u) \<in> set evs"
    if "Some u \<in> set ta" "ip_blkid u < RelationGetNumberOfBlocks rel" for u
    using bspec[OF e(2) mem[OF that(1)]] that(2) by (simp add: not_le [symmetric])
  ultimately show "\<exists>evs. rd_log rel' = rd_log rel @ evs \<and>
           Notice (BlockOutOfRange (ip_blkid tid)) \<in> set evs \<and>
           (\<forall>e\<in>set evs. event_block e = ip_blkid tid \<longrightarrow> e = Notice (BlockOutOfRange (ip_blkid tid))) \<and>
           (\<forall>u. Some u \<in> set ta \<and> ip_blkid u < RelationGetNumberOfBlocks rel \<longrightarrow>
                ReadBuffer (ip_blkid u) \<in> set evs)"
    using e(1) by (intro exI[of _ evs]) simp
qed

text \<open>
  The freeze of (3, 1) and (0, 1) on the example table, which has one block.
\<close>

theorem block_out_of_range_skipped_witness:
  "heap_force_common False HEAP_FORCE_FREEZE [Some tid_3_1, Some tid_0_1] hot_rel =
     Some (Inr hot_rel_frozen) \<and>
   RelationGetNumberOfBlocks hot_rel \<le> ip_blkid tid_3_1 \<and>
   heap_force_page HEAP_FORCE_FREEZE (RelationGetNumberOfBlocks hot_rel) (ip_blkid tid_3_1)
       [ip_posid tid_3_1] hot_rel =
     Some (Inr (hot_rel\<lparr>rd_log := rd_log hot_rel @ [Notice (BlockOutOfRange (ip_blkid tid_3_1))]\<rparr>)) \<and>
   (\<exists>evs. rd_log hot_rel_frozen = rd_log hot_rel @ evs \<and>
      Notice (BlockOutOfRange (ip_blkid tid_3_1)) \<in> set evs \<and>
      ReadBuffer (ip_blkid tid_3_1) \<notin> set evs \<and>
      ReadBuffer (ip_blkid tid_0_1) \<in> set evs)"
proof -
  have run: "heap_force_common False HEAP_FORCE_FREEZE [Some tid_3_1, Some tid_0_1] hot_rel =
     Some (Inr hot_rel_frozen)"
    using hot_rel_freeze_run by (simp add: heap_force_freeze_def)
  have oor: "RelationGetNumberOfBlocks hot_rel \<le> ip_blkid tid_3_1"
    by (simp add: RelationGetNumberOfBlocks_def hot_rel_def tid_3_1_def)
  have inr: "ip_blkid tid_0_1 < RelationGetNumberOfBlocks hot_rel"
    by (simp add: RelationGetNumberOfBlocks_def hot_rel_def tid_0_1_def)
  have mem: "Some tid_3_1 \<in> set [Some tid_3_1, Some tid_0_1]" by simp
  note inst = block_out_of_range_skipped [OF run mem oor]
  from inst obtain evs where e: "rd_log hot_rel_frozen = rd_log hot_rel @ evs"
    "Notice (BlockOutOfRange (ip_blkid tid_3_1)) \<in> set evs"
    "\<forall>e\<in>set evs. event_block e = ip_blkid tid_3_1 \<longrightarrow> e = Notice (BlockOutOfRange (ip_blkid tid_3_1))"
    "\<forall>u. Some u \<in> set [Some tid_3_1, Some tid_0_1] \<and> ip_blkid u < RelationGetNumberOfBlocks hot_rel \<longrightarrow>
         ReadBuffer (ip_blkid u) \<in> set evs"
    by blast
  have "ReadBuffer (ip_blkid tid_3_1) \<notin> set evs" using e(3) by auto
  moreover have "ReadBuffer (ip_blkid tid_0_1) \<in> set evs" using e(4) inr by simp
  moreover have "heap_force_page HEAP_FORCE_FREEZE (RelationGetNumberOfBlocks hot_rel) (ip_blkid tid_3_1)
       [ip_posid tid_3_1] hot_rel =
     Some (Inr (hot_rel\<lparr>rd_log := rd_log hot_rel @ [Notice (BlockOutOfRange (ip_blkid tid_3_1))]\<rparr>))"
    using inst by blast
  ultimately show ?thesis using run oor e(1,2) by blast
qed







text \<open>
  Claim C9. After a \<open>heap_force_freeze\<close> that returns, the flag word of every page,
  and with it the all-visible flag, and the visibility map are as before the call,
  whatever the batch.
\<close>

theorem heap_force_freeze_keeps_all_visible:
  assumes "heap_force_freeze in_recovery ta rel = Some (Inr rel')"
  shows "map pd_flags (rd_pages rel') = map pd_flags (rd_pages rel) \<and> rd_vm rel' = rd_vm rel"
proof -
  let ?Q = "\<lambda>r. map pd_flags (rd_pages r) = map pd_flags (rd_pages rel) \<and> rd_vm r = rd_vm rel"
  have "visit_groups (heap_force_page HEAP_FORCE_FREEZE (RelationGetNumberOfBlocks rel))
           (page_runs (if 1 < length ta then qsort (map the ta) else map the ta)) rel = Some (Inr rel')"
    using heap_force_common_Inr[OF assms[unfolded heap_force_freeze_def]] by simp
  then show ?thesis
    by (rule visit_groups_induct[where Q = ?Q]) (auto dest: heap_force_page_freeze_frame)
qed

text \<open>
  The freeze of (3, 1) and (0, 1) on the example table.
\<close>

theorem heap_force_freeze_keeps_all_visible_witness:
  "heap_force_freeze False [Some tid_3_1, Some tid_0_1] hot_rel = Some (Inr hot_rel_frozen) \<and>
   map pd_flags (rd_pages hot_rel_frozen) = map pd_flags (rd_pages hot_rel) \<and>
   rd_vm hot_rel_frozen = rd_vm hot_rel"
  using heap_force_freeze_keeps_all_visible [OF hot_rel_freeze_run] hot_rel_freeze_run by simp

text \<open>
  Claim C10, as stated: for every validated batch of at most 65535 row identifiers the
  \<^verbatim>\<open>do\<close> loop ends. The batch size is not the only condition: on a table whose page has
  two redirects that point to each other, the kill of the one row identifier (0, 1)
  never returns, since the redirect loop in the body of the \<^verbatim>\<open>do\<close> loop never ends.
\<close>

theorem do_loop_redirect_cycle:
  "sanity_check_tid_array [Some tid_0_1] = Inr 1 \<and>
   sanity_check_relation cycle_rel = Inr () \<and>
   heap_force_kill False [Some tid_0_1] cycle_rel = None"
  using cycle_rel_kill_run
  by (simp add: sanity_check_tid_array_def sanity_check_relation_def cycle_rel_def constant_defs)

text \<open>
  Claim C10, amended. The cursors of the \<^verbatim>\<open>do\<close> loop are 16-bit. For a validated batch
  of at most 65535 row identifiers, if the redirect loop ends for every row identifier
  of the batch that is in range, then the call returns: the \<^verbatim>\<open>do\<close> loop ends, and it
  is the visit, one after the other, of the runs of equal block number of the sorted
  array, which hold the row identifiers of the batch, each as often as the batch does.
  For a validated batch of more than 65535 row identifiers the cursor never equals
  \<^verbatim>\<open>ntids\<close> and the call never returns.
\<close>

theorem do_loop_terminates_upto_65535:
  assumes "\<not> in_recovery" "None \<notin> set ta" "ta \<noteq> []" "sanity_check_relation rel = Inr ()"
  shows "if length ta \<le> 65535
         then (\<forall>tid. Some tid \<in> set ta \<and> ip_blkid tid < RelationGetNumberOfBlocks rel \<longrightarrow>
                 redirects_end (rd_pages rel ! unat (ip_blkid tid)) (ip_posid tid)) \<longrightarrow>
              (\<exists>rel'. heap_force_common in_recovery heap_force_opt ta rel = Some (Inr rel') \<and>
                 visit_groups (heap_force_page heap_force_opt (RelationGetNumberOfBlocks rel))
                   (page_runs (if 1 < length ta then qsort (map the ta) else map the ta)) rel =
                   Some (Inr rel')) \<and>
              concat (map group_tids
                (page_runs (if 1 < length ta then qsort (map the ta) else map the ta))) =
                (if 1 < length ta then qsort (map the ta) else map the ta) \<and>
              (\<forall>t. count_list (if 1 < length ta then qsort (map the ta) else map the ta) t =
                   count_list (map the ta) t)
         else heap_force_common in_recovery heap_force_opt ta rel = None"
proof (cases "length ta \<le> 65535")
  case True
  let ?tids = "if 1 < length ta then qsort (map the ta) else map the ta"
  have runs: "heap_force_common in_recovery heap_force_opt ta rel =
      visit_groups (heap_force_page heap_force_opt (RelationGetNumberOfBlocks rel)) (page_runs ?tids) rel"
    using assms True by (rule heap_force_common_runs)
  have cnt: "\<forall>t. count_list ?tids t = count_list (map the ta) t"
    by (simp add: count_list_qsort)
  have cc: "concat (map group_tids (page_runs ?tids)) = ?tids" by (rule concat_page_runs)
  have "\<exists>rel'. heap_force_common in_recovery heap_force_opt ta rel = Some (Inr rel') \<and>
          visit_groups (heap_force_page heap_force_opt (RelationGetNumberOfBlocks rel))
            (page_runs ?tids) rel = Some (Inr rel')"
    if "\<forall>tid. Some tid \<in> set ta \<and> ip_blkid tid < RelationGetNumberOfBlocks rel \<longrightarrow>
          redirects_end (rd_pages rel ! unat (ip_blkid tid)) (ip_posid tid)"
    using heap_force_common_total[OF assms True that, of heap_force_opt] runs by auto
  then show ?thesis using True cnt cc by (simp only: if_True) blast
next
  case False
  then have "65535 < length ta" by simp
  then have "heap_force_common in_recovery heap_force_opt ta rel = None"
    using assms(1,2,4) by (intro heap_force_common_big)
  then show ?thesis using False by simp
qed

text \<open>
  The freeze of (3, 1) and (0, 1) on the example table, and the kill of a batch of
  65536 row identifiers.
\<close>

theorem do_loop_terminates_upto_65535_witness:
  "heap_force_common False HEAP_FORCE_FREEZE [Some tid_3_1, Some tid_0_1] hot_rel =
     Some (Inr hot_rel_frozen) \<and>
   visit_groups (heap_force_page HEAP_FORCE_FREEZE (RelationGetNumberOfBlocks hot_rel))
     (page_runs (qsort [tid_3_1, tid_0_1])) hot_rel = Some (Inr hot_rel_frozen) \<and>
   page_runs (qsort [tid_3_1, tid_0_1]) = [(0, [1]), (3, [1])] \<and>
   heap_force_common False HEAP_FORCE_KILL (replicate 65536 (Some tid_0_1)) hot_rel = None"
proof -
  have san: "sanity_check_relation hot_rel = Inr ()"
    by (simp add: sanity_check_relation_def hot_rel_def constant_defs)
  have ends: "\<forall>tid. Some tid \<in> set [Some tid_3_1, Some tid_0_1] \<and>
      ip_blkid tid < RelationGetNumberOfBlocks hot_rel \<longrightarrow>
      redirects_end (rd_pages hot_rel ! unat (ip_blkid tid)) (ip_posid tid)"
    using hot_follow_1
    by (auto simp: redirects_end_def RelationGetNumberOfBlocks_def hot_rel_def tid_3_1_def tid_0_1_def
        PageGetItemId_def hot_page_def)
  have run: "heap_force_common False HEAP_FORCE_FREEZE [Some tid_3_1, Some tid_0_1] hot_rel =
     Some (Inr hot_rel_frozen)"
    using hot_rel_freeze_run by (simp add: heap_force_freeze_def)
  have sorted: "page_runs (qsort [tid_3_1, tid_0_1]) = [(0, [1]), (3, [1])]"
    by (simp add: example_defs tidcmp_def ItemPointerCompare_def)
  have small: "visit_groups (heap_force_page HEAP_FORCE_FREEZE (RelationGetNumberOfBlocks hot_rel))
     (page_runs (qsort [tid_3_1, tid_0_1])) hot_rel = Some (Inr hot_rel_frozen)"
    using do_loop_terminates_upto_65535 [of False "[Some tid_3_1, Some tid_0_1]" hot_rel HEAP_FORCE_FREEZE]
      san ends run
    by simp
  have big: "heap_force_common False HEAP_FORCE_KILL (replicate 65536 (Some tid_0_1)) hot_rel = None"
    using do_loop_terminates_upto_65535 [of False "replicate 65536 (Some tid_0_1)" hot_rel HEAP_FORCE_KILL]
      san
    by simp
  show ?thesis using run small sorted big by simp
qed

end
